theory Spec2Isabelle
  imports Main "HOL-Library.AList" "HOL-Library.Char_ord" "HOL-Library.List_Lexorder"
    "HOL-Library.Multiset"
begin

section \<open>Source texts\<close>

text \<open>
  A JavaScript string is a sequence of code units; the model uses \<^typ>\<open>string\<close>, one
  \<^typ>\<open>char\<close> per code unit, which covers the code units below 256. Every character the
  analysed functions compare against is ASCII.
\<close>

abbreviation NL :: char where "NL \<equiv> CHR 0x0A"
abbreviation SP :: char where "SP \<equiv> CHR 0x20"
abbreviation BSL :: char where "BSL \<equiv> CHR 0x5C"
abbreviation SQ :: char where "SQ \<equiv> CHR 0x27"
abbreviation DQ :: char where "DQ \<equiv> CHR 0x22"
abbreviation BT :: char where "BT \<equiv> CHR 0x60"

section \<open>The text normalizer: \<open>stripLiteralsAndComments\<close>\<close>

text \<open>
  \<^verbatim>\<open>out.push(source[i] === "\n" ? "\n" : " ")\<close>: what a masked character becomes.
\<close>

definition blank :: "char \<Rightarrow> char" where
  "blank c = (if c = NL then NL else SP)"

text \<open>
  \<^verbatim>\<open>source[i + 1] === d\<close>, where reading past the end gives \<open>undefined\<close>.
\<close>

definition next_is :: "string \<Rightarrow> char \<Rightarrow> bool" where
  "next_is s d = (case s of [] \<Rightarrow> False | e # _ \<Rightarrow> e = d)"

text \<open>
  Each inner \<open>while\<close> loop of the source is a function from the text at index \<open>i\<close> to
  the characters it pushes and the text left when it stops.

  The loop of a single-line comment: \<^verbatim>\<open>while (i < len && source[i] !== "\n")\<close>.
\<close>

fun line_comment_loop :: "string \<Rightarrow> string \<times> string" where
  "line_comment_loop [] = ([], [])"
| "line_comment_loop (c # s) =
     (if c = NL then ([], c # s)
      else (let (out, rest) = line_comment_loop s in (SP # out, rest)))"

text \<open>The loop of a block comment, left at \<^verbatim>\<open>*/\<close> or at the end of the text.\<close>

fun block_comment_loop :: "string \<Rightarrow> string \<times> string" where
  "block_comment_loop [] = ([], [])"
| "block_comment_loop (c # s) =
     (if c = CHR ''*'' \<and> next_is s (CHR ''/'') then ([SP, SP], tl s)
      else (let (out, rest) = block_comment_loop s in (blank c # out, rest)))"

text \<open>
  The loop of a template literal, with its \<open>depth\<close> counter. The tests are in the order
  of the source: escape, \<^verbatim>\<open>${\<close>, \<^verbatim>\<open>}\<close> at positive depth, closing backtick at
  depth 0, any other character.
\<close>

fun template_loop :: "nat \<Rightarrow> string \<Rightarrow> string \<times> string" where
  "template_loop depth [] = ([], [])"
| "template_loop depth (c # s) =
     (if c = BSL \<and> s \<noteq> [] then
        (let (out, rest) = template_loop depth (tl s) in (SP # SP # out, rest))
      else if c = CHR ''$'' \<and> next_is s (CHR ''{'') then
        (let (out, rest) = template_loop (depth + 1) (tl s) in (SP # SP # out, rest))
      else if c = CHR ''}'' \<and> depth > 0 then
        (let (out, rest) = template_loop (depth - 1) s in (SP # out, rest))
      else if c = BT \<and> depth = 0 then ([SP], s)
      else (let (out, rest) = template_loop depth s in (blank c # out, rest)))"

text \<open>The loop of a string literal opened by \<open>quote\<close>.\<close>

fun string_loop :: "char \<Rightarrow> string \<Rightarrow> string \<times> string" where
  "string_loop quote [] = ([], [])"
| "string_loop quote (c # s) =
     (if c = BSL \<and> s \<noteq> [] then
        (let (out, rest) = string_loop quote (tl s) in (SP # SP # out, rest))
      else if c = quote then ([SP], s)
      else if c = NL then ([NL], s)
      else (let (out, rest) = string_loop quote s in (SP # out, rest)))"

lemma line_comment_loop_rest: "length (snd (line_comment_loop s)) \<le> length s"
  by (induction s) (auto split: prod.splits)

lemma block_comment_loop_rest: "length (snd (block_comment_loop s)) \<le> length s"
  by (induction s) (auto split: prod.splits)

lemma template_loop_rest: "length (snd (template_loop d s)) \<le> length s"
proof (induction d s rule: template_loop.induct)
  case (1 depth)
  show ?case by simp
next
  case (2 depth c s)
  have tl_le: "\<And>k. k \<le> length (tl s) \<Longrightarrow> k \<le> Suc (length s)" by simp
  from 2 show ?case
    by (auto split: prod.splits simp: le_Suc_eq dest!: tl_le)
qed

lemma string_loop_rest: "length (snd (string_loop q s)) \<le> length s"
proof (induction q s rule: string_loop.induct)
  case (1 quote)
  show ?case by simp
next
  case (2 quote c s)
  have tl_le: "\<And>k. k \<le> length (tl s) \<Longrightarrow> k \<le> Suc (length s)" by simp
  from 2 show ?case
    by (auto split: prod.splits simp: le_Suc_eq dest!: tl_le)
qed

text \<open>
  The outer loop. Each branch pushes the blanks for the opening delimiter, runs its inner
  loop and continues from where that loop stopped.
\<close>

function stripLiteralsAndComments :: "string \<Rightarrow> string" where
  "stripLiteralsAndComments [] = []"
| "stripLiteralsAndComments (ch # s) =
     (if ch = CHR ''/'' \<and> next_is s (CHR ''/'') then
        SP # SP # fst (line_comment_loop (tl s))
          @ stripLiteralsAndComments (snd (line_comment_loop (tl s)))
      else if ch = CHR ''/'' \<and> next_is s (CHR ''*'') then
        SP # SP # fst (block_comment_loop (tl s))
          @ stripLiteralsAndComments (snd (block_comment_loop (tl s)))
      else if ch = BT then
        SP # fst (template_loop 0 s) @ stripLiteralsAndComments (snd (template_loop 0 s))
      else if ch = SQ \<or> ch = DQ then
        SP # fst (string_loop ch s) @ stripLiteralsAndComments (snd (string_loop ch s))
      else ch # stripLiteralsAndComments s)"
  by pat_completeness auto
termination
proof (relation "measure length")
  show "wf (measure length)" by simp
next
  fix ch :: char and s :: string
  have "length (snd (line_comment_loop (tl s))) \<le> length (tl s)"
    by (rule line_comment_loop_rest)
  then show "(snd (line_comment_loop (tl s)), ch # s) \<in> measure length" by simp
next
  fix ch :: char and s :: string
  have "length (snd (block_comment_loop (tl s))) \<le> length (tl s)"
    by (rule block_comment_loop_rest)
  then show "(snd (block_comment_loop (tl s)), ch # s) \<in> measure length" by simp
next
  fix ch :: char and s :: string
  have "length (snd (template_loop 0 s)) \<le> length s"
    by (rule template_loop_rest)
  then show "(snd (template_loop 0 s), ch # s) \<in> measure length" by simp
next
  fix ch :: char and s :: string
  have "length (snd (string_loop ch s)) \<le> length s"
    by (rule string_loop_rest)
  then show "(snd (string_loop ch s), ch # s) \<in> measure length" by simp
next
  fix ch :: char and s :: string
  show "(s, ch # s) \<in> measure length" by simp
qed


section \<open>Strings\<close>

text \<open>\<^verbatim>\<open>s.startsWith(p)\<close> and \<^verbatim>\<open>s.endsWith(p)\<close>.\<close>

definition startsWith :: "string \<Rightarrow> string \<Rightarrow> bool" where
  "startsWith s p = (take (length p) s = p)"

definition endsWith :: "string \<Rightarrow> string \<Rightarrow> bool" where
  "endsWith s p = (length p \<le> length s \<and> drop (length s - length p) s = p)"

section \<open>The environment\<close>

text \<open>
  The filesystem snapshot, as the three calls of node's \<open>fs\<close> module that the analysis
  makes: \<^verbatim>\<open>readFileSync(p, "utf-8")\<close> (\<open>None\<close> when it throws), \<^verbatim>\<open>existsSync(p)\<close> and
  \<^verbatim>\<open>statSync(p).isDirectory()\<close> (\<open>None\<close> when \<open>statSync\<close> throws).

  The functions of node's \<open>path\<close> module are not part of the repository; the model takes
  them as parameters.
\<close>

record fs =
  readFileSync :: "string \<Rightarrow> string option"
  existsSync :: "string \<Rightarrow> bool"
  statIsDirectory :: "string \<Rightarrow> bool option"

record pathlib =
  dirname :: "string \<Rightarrow> string"
  resolve :: "string \<Rightarrow> string \<Rightarrow> string"
  join :: "string \<Rightarrow> string \<Rightarrow> string"
  relative :: "string \<Rightarrow> string \<Rightarrow> string"

section \<open>The module resolver\<close>

text \<open>
  \<open>resolveIndexFile\<close> returns the first \<^verbatim>\<open>join(dirPath, "index" + ext)\<close> that exists, in the
  order of \<open>RESOLVE_EXTENSIONS\<close>, or \<open>null\<close>. \<open>truthy\<close> is the truth value JavaScript
  gives a string that may be \<open>null\<close> or \<open>undefined\<close>: the empty string is false.

  \<open>resolveImportPath\<close> follows the source branch by branch: the exact path (a directory
  goes to its index file, or stays itself), the path with each extension appended, the
  \<^verbatim>\<open>.js\<close> and \<^verbatim>\<open>.jsx\<close> conventions, the index file of the path, the path as it is. A
  specifier that does not start with a dot is returned as it is.
\<close>

definition RESOLVE_EXTENSIONS :: "string list" where
  "RESOLVE_EXTENSIONS = [''.ts'', ''.tsx'', ''.js'', ''.jsx'', ''.mjs'', ''.mts'']"

definition resolveIndexFile :: "pathlib \<Rightarrow> fs \<Rightarrow> string \<Rightarrow> string option" where
  "resolveIndexFile P F dirPath =
     find (existsSync F) (map (\<lambda>ext. join P dirPath (''index'' @ ext)) RESOLVE_EXTENSIONS)"

definition truthy :: "string option \<Rightarrow> bool" where
  "truthy v = (case v of None \<Rightarrow> False | Some s \<Rightarrow> s \<noteq> [])"

definition resolveImportPath :: "pathlib \<Rightarrow> fs \<Rightarrow> string \<Rightarrow> string \<Rightarrow> string" where
  "resolveImportPath P F fromFile importPath =
     (if startsWith importPath ''.'' then
        (let dir = dirname P fromFile;
             resolved = resolve P dir importPath
         in if existsSync F resolved then
              (if statIsDirectory F resolved = Some True then
                 (if truthy (resolveIndexFile P F resolved)
                  then the (resolveIndexFile P F resolved) else resolved)
               else resolved)
            else
              (case find (existsSync F) (map (\<lambda>ext. resolved @ ext) RESOLVE_EXTENSIONS) of
                 Some withExt \<Rightarrow> withExt
               | None \<Rightarrow>
                  (case (if endsWith resolved ''.js'' then
                           find (existsSync F)
                             (map (\<lambda>ext. take (length resolved - 3) resolved @ ext)
                                [''.ts'', ''.tsx'', ''.js''])
                         else if endsWith resolved ''.jsx'' then
                           find (existsSync F)
                             (map (\<lambda>ext. take (length resolved - 4) resolved @ ext)
                                [''.tsx'', ''.jsx''])
                         else None) of
                     Some p \<Rightarrow> p
                   | None \<Rightarrow>
                      (if truthy (resolveIndexFile P F resolved)
                       then the (resolveIndexFile P F resolved) else resolved))))
      else importPath)"


section \<open>Regular expressions\<close>

text \<open>
  The fallback extractor is written with regular expressions. They are modelled by a
  backtracking matcher that returns every way a pattern matches at the start of the
  remaining text, in the order in which JavaScript's matcher tries them: the head of the
  list is the match JavaScript reports. A state of the matcher is the character before
  the current position (for \<^verbatim>\<open>\b\<close>), the remaining text and the capture groups.

  \<open>Star\<close> is the greedy \<^verbatim>\<open>*\<close>: one more iteration is tried before stopping, and an
  iteration that consumes nothing is rejected. \<open>NegLook\<close> is \<^verbatim>\<open>(?!r)\<close>, \<open>WordB\<close> is
  \<^verbatim>\<open>\b\<close>, \<open>Grp n\<close> is the \<open>n\<close>-th capturing group. \<open>js_space\<close> is \<^verbatim>\<open>\s\<close> and
  \<open>word_char\<close> is \<^verbatim>\<open>\w\<close>, on the code units below 256.
\<close>

type_synonym captures = "nat \<Rightarrow> string option"

datatype regex =
    Chr char
  | Cls "char \<Rightarrow> bool"
  | Eps
  | Seq regex regex
  | Alt regex regex
  | Star regex
  | Grp nat regex
  | WordB
  | NegLook regex

definition word_char :: "char \<Rightarrow> bool" where
  "word_char c = (let n = (of_char c :: nat) in
     (97 \<le> n \<and> n \<le> 122) \<or> (65 \<le> n \<and> n \<le> 90) \<or> (48 \<le> n \<and> n \<le> 57) \<or> c = CHR ''_'')"

definition js_space :: "char \<Rightarrow> bool" where
  "js_space c = (c = SP \<or> c = CHR 0x09 \<or> c = NL \<or> c = CHR 0x0B \<or> c = CHR 0x0C
     \<or> c = CHR 0x0D \<or> c = CHR 0xA0)"

definition at_word_boundary :: "char option \<Rightarrow> string \<Rightarrow> bool" where
  "at_word_boundary p s =
     ((case p of None \<Rightarrow> False | Some c \<Rightarrow> word_char c)
        \<noteq> (case s of [] \<Rightarrow> False | c # _ \<Rightarrow> word_char c))"

fun matches :: "regex \<Rightarrow> char option \<Rightarrow> string \<Rightarrow> captures
    \<Rightarrow> (char option \<times> string \<times> captures) list" where
  "matches (Chr c) p s caps =
     (case s of [] \<Rightarrow> [] | d # s' \<Rightarrow> if d = c then [(Some d, s', caps)] else [])"
| "matches (Cls P) p s caps =
     (case s of [] \<Rightarrow> [] | d # s' \<Rightarrow> if P d then [(Some d, s', caps)] else [])"
| "matches Eps p s caps = [(p, s, caps)]"
| "matches (Seq r1 r2) p s caps =
     concat (map (\<lambda>(p', s', caps'). matches r2 p' s' caps') (matches r1 p s caps))"
| "matches (Alt r1 r2) p s caps = matches r1 p s caps @ matches r2 p s caps"
| "matches (Star r) p s caps =
     concat (map (\<lambda>(p', s', caps').
        if length s' < length s then matches (Star r) p' s' caps' else [])
       (matches r p s caps)) @ [(p, s, caps)]"
| "matches (Grp n r) p s caps =
     map (\<lambda>(p', s', caps'). (p', s', caps'(n := Some (take (length s - length s') s))))
       (matches r p s caps)"
| "matches WordB p s caps = (if at_word_boundary p s then [(p, s, caps)] else [])"
| "matches (NegLook r) p s caps = (if matches r p s caps = [] then [(p, s, caps)] else [])"

definition Lit :: "string \<Rightarrow> regex" where
  "Lit s = foldr (\<lambda>c r. Seq (Chr c) r) s Eps"

definition Plus :: "regex \<Rightarrow> regex" where
  "Plus r = Seq r (Star r)"

definition Opt :: "regex \<Rightarrow> regex" where
  "Opt r = Alt r Eps"

definition Seqs :: "regex list \<Rightarrow> regex" where
  "Seqs rs = foldr Seq rs Eps"


text \<open>
  The character classes \<^verbatim>\<open>[a-zA-Z_$]\<close>, \<^verbatim>\<open>[a-zA-Z0-9_$]\<close> and \<^verbatim>\<open>['"]\<close>, and the
  pieces the patterns share: \<^verbatim>\<open>\s+\<close>, an identifier, a quoted module specifier
  \<^verbatim>\<open>['"]([^'"]+)['"]\<close> and a brace list \<^verbatim>\<open>\{([^}]+)\}\<close>.
\<close>

definition ident_start :: "char \<Rightarrow> bool" where
  "ident_start c = (let n = (of_char c :: nat) in
     (97 \<le> n \<and> n \<le> 122) \<or> (65 \<le> n \<and> n \<le> 90) \<or> c = CHR ''_'' \<or> c = CHR ''$'')"

definition ident_char :: "char \<Rightarrow> bool" where
  "ident_char c = (let n = (of_char c :: nat) in
     (97 \<le> n \<and> n \<le> 122) \<or> (65 \<le> n \<and> n \<le> 90) \<or> (48 \<le> n \<and> n \<le> 57)
       \<or> c = CHR ''_'' \<or> c = CHR ''$'')"

definition quote_char :: "char \<Rightarrow> bool" where
  "quote_char c = (c = SQ \<or> c = DQ)"

abbreviation spaces_re :: regex where "spaces_re \<equiv> Plus (Cls js_space)"
abbreviation ident_re :: regex where "ident_re \<equiv> Seq (Cls ident_start) (Star (Cls ident_char))"
abbreviation quoted_re :: "nat \<Rightarrow> regex" where
  "quoted_re n \<equiv> Seqs [Cls quote_char, Grp n (Plus (Cls (\<lambda>c. \<not> quote_char c))), Cls quote_char]"
abbreviation braces_re :: "nat \<Rightarrow> regex" where
  "braces_re n \<equiv> Seqs [Chr (CHR ''{''), Grp n (Plus (Cls (\<lambda>c. c \<noteq> CHR ''}''))), Chr (CHR ''}'')]"

text \<open>
  The patterns of \<open>extractExportsAndImportsViaRegex\<close>, in the order of the source, and
  the pattern \<^verbatim>\<open>/\s+as\s+/\<close> of its \<open>split\<close> calls.
\<close>

definition exportDefaultRegex :: regex where
  "exportDefaultRegex = Seqs [WordB, Lit ''export'', spaces_re, Lit ''default'', WordB]"

definition namedExportDeclRegex :: regex where
  "namedExportDeclRegex = Seqs [WordB, Lit ''export'', spaces_re,
     Alt (Lit ''const'') (Alt (Lit ''let'') (Alt (Lit ''var'')
       (Alt (Seq (Lit ''function'') (Opt (Chr (CHR ''*'')))) (Alt (Lit ''class'') (Alt (Lit ''enum'')
         (Seqs [Lit ''abstract'', spaces_re, Lit ''class''])))))),
     spaces_re, Grp 1 ident_re]"

definition exportBraceRegex :: regex where
  "exportBraceRegex = Seqs [WordB, Lit ''export'', spaces_re, braces_re 1,
     Opt (Seqs [spaces_re, Lit ''from'', spaces_re, quoted_re 2])]"

definition exportAllRegex :: regex where
  "exportAllRegex = Seqs [WordB, Lit ''export'', spaces_re, Chr (CHR ''*''), spaces_re, Lit ''from'',
     spaces_re, quoted_re 1]"

definition tsExportTypeRegex :: regex where
  "tsExportTypeRegex = Seqs [WordB, Lit ''export'', spaces_re,
     Alt (Lit ''type'') (Lit ''interface''), spaces_re, Grp 1 ident_re]"

definition namedImportRegex :: regex where
  "namedImportRegex = Seqs [WordB, Lit ''import'', spaces_re, NegLook (Seq (Lit ''type'') WordB),
     braces_re 1, spaces_re, Lit ''from'', spaces_re, quoted_re 2]"

definition defaultImportRegex :: regex where
  "defaultImportRegex = Seqs [WordB, Lit ''import'', spaces_re, NegLook (Seq (Lit ''type'') WordB),
     Grp 1 ident_re, spaces_re, Lit ''from'', spaces_re, quoted_re 2]"

definition namespaceImportRegex :: regex where
  "namespaceImportRegex = Seqs [WordB, Lit ''import'', spaces_re, Chr (CHR ''*''), spaces_re, Lit ''as'',
     spaces_re, ident_re, spaces_re, Lit ''from'', spaces_re, quoted_re 1]"

definition asRegex :: regex where
  "asRegex = Seqs [spaces_re, Lit ''as'', spaces_re]"

text \<open>
  \<^verbatim>\<open>text.matchAll(r)\<close> for a pattern with the \<open>g\<close> flag: the matches from left to right,
  each search starting where the previous match ended (one character further after an
  empty match). A match carries its start offset and its groups.
\<close>

record rmatch =
  index :: nat
  groups :: captures

fun matchAll_from :: "regex \<Rightarrow> nat \<Rightarrow> char option \<Rightarrow> string \<Rightarrow> rmatch list" where
  "matchAll_from r i p [] =
     (case matches r p [] (\<lambda>_. None) of
        [] \<Rightarrow> []
      | (p', s', caps) # _ \<Rightarrow> [\<lparr>index = i, groups = caps\<rparr>])"
| "matchAll_from r i p (c # s) =
     (case matches r p (c # s) (\<lambda>_. None) of
        [] \<Rightarrow> matchAll_from r (i + 1) (Some c) s
      | (p', s', caps) # _ \<Rightarrow>
          \<lparr>index = i, groups = caps\<rparr> #
            (if length s' < length (c # s)
             then matchAll_from r (i + (length (c # s) - length s')) p' s'
             else matchAll_from r (i + 1) (Some c) s))"

definition matchAll :: "regex \<Rightarrow> string \<Rightarrow> rmatch list" where
  "matchAll r text = matchAll_from r 0 None text"

definition regex_test :: "regex \<Rightarrow> string \<Rightarrow> bool" where
  "regex_test r text = (matchAll r text \<noteq> [])"

text \<open>
  \<^verbatim>\<open>text.split(r)\<close> for a pattern that matches no empty string (the only pattern split
  on is \<^verbatim>\<open>/\s+as\s+/\<close>), \<^verbatim>\<open>text.split(",")\<close> and \<^verbatim>\<open>text.trim()\<close>.
\<close>

fun split_from :: "regex \<Rightarrow> char option \<Rightarrow> string \<Rightarrow> string \<Rightarrow> string list" where
  "split_from r p piece [] = [piece]"
| "split_from r p piece (c # s) =
     (case matches r p (c # s) (\<lambda>_. None) of
        [] \<Rightarrow> split_from r (Some c) (piece @ [c]) s
      | (p', s', caps) # _ \<Rightarrow>
          (if length s' < length (c # s) then piece # split_from r p' [] s'
           else split_from r (Some c) (piece @ [c]) s))"

definition split_regex :: "regex \<Rightarrow> string \<Rightarrow> string list" where
  "split_regex r text = split_from r None [] text"

fun split_char :: "char \<Rightarrow> string \<Rightarrow> string list" where
  "split_char sep [] = [[]]"
| "split_char sep (c # s) =
     (if c = sep then [] # split_char sep s
      else (case split_char sep s of [] \<Rightarrow> [[c]] | x # xs \<Rightarrow> (c # x) # xs))"

definition trim :: "string \<Rightarrow> string" where
  "trim s = rev (dropWhile js_space (rev (dropWhile js_space s)))"


section \<open>The syntax tree of the primary parser\<close>

text \<open>
  The parser (acorn) is not part of the repository: it is a parameter
  \<open>parse :: string \<Rightarrow> Node list option\<close>, \<open>None\<close> when it throws. Its result is modelled
  by the nodes that the walker's four callbacks see, in source order, with the fields
  the callbacks read. A name is \<open>None\<close> where \<^verbatim>\<open>node?.name\<close> is \<open>undefined\<close>.
\<close>

record ExportSpecifier =
  exported :: "string option"
  local :: "string option"

datatype Declaration =
    Declarations "string option list"
  | Declared "string option"

datatype ImportSpec =
    ImportSpecifier "string option"
  | ImportDefaultSpecifier
  | ImportNamespaceSpecifier

datatype Node =
    ExportNamedDeclaration "ExportSpecifier list" "string option" "Declaration option"
  | ExportDefaultDeclaration
  | ExportAllDeclaration "string option"
  | ImportDeclaration "string option" "ImportSpec list"

section \<open>The graph builder\<close>

text \<open>
  A JavaScript \<open>Set\<close> is a list without duplicates in insertion order (\<open>set_add\<close>), a
  \<open>Map\<close> an association list in insertion order: \<open>AList.update\<close> replaces the value of
  a key in place and appends a new key, as \<^verbatim>\<open>Map.set\<close> does.
\<close>

record ImportRecord =
  importedName :: string
  sourceFile :: string

record ExportGraph =
  exports :: "(string \<times> string list) list"
  "imports" :: "(string \<times> ImportRecord list) list"

definition set_add :: "'a list \<Rightarrow> 'a \<Rightarrow> 'a list" where
  "set_add xs x = (if x \<in> set xs then xs else xs @ [x])"

definition or_else :: "string option \<Rightarrow> string option \<Rightarrow> string option" where
  "or_else a b = (if truthy a then a else b)"

definition add_name :: "string option \<Rightarrow> string list \<Rightarrow> string list" where
  "add_name v fileExports = (if truthy v then set_add fileExports (the v) else fileExports)"

text \<open>The four callbacks of \<^verbatim>\<open>walk.simple\<close>, applied to one node.\<close>

fun visit :: "pathlib \<Rightarrow> fs \<Rightarrow> string \<Rightarrow> Node
    \<Rightarrow> string list \<times> ImportRecord list \<Rightarrow> string list \<times> ImportRecord list" where
  "visit P F file (ExportNamedDeclaration specifiers source declaration) (fileExports, fileImports) =
     (let (fileExports1, fileImports1) =
            fold (\<lambda>spec (ex, im).
                (add_name (or_else (exported spec) (local spec)) ex,
                 if truthy source \<and> truthy (local spec)
                 then im @ [\<lparr>importedName = the (local spec),
                             sourceFile = resolveImportPath P F file (the source)\<rparr>]
                 else im))
              specifiers (fileExports, fileImports)
      in (case declaration of
            None \<Rightarrow> (fileExports1, fileImports1)
          | Some (Declarations ds) \<Rightarrow> (fold add_name ds fileExports1, fileImports1)
          | Some (Declared name) \<Rightarrow> (add_name name fileExports1, fileImports1)))"
| "visit P F file ExportDefaultDeclaration (fileExports, fileImports) =
     (set_add fileExports ''default'', fileImports)"
| "visit P F file (ExportAllDeclaration source) (fileExports, fileImports) =
     (if truthy source then
        (set_add fileExports (''* from '' @ the source),
         fileImports @ [\<lparr>importedName = ''*'',
                         sourceFile = resolveImportPath P F file (the source)\<rparr>])
      else (fileExports, fileImports))"
| "visit P F file (ImportDeclaration source specifiers) (fileExports, fileImports) =
     (if \<not> truthy source then (fileExports, fileImports)
      else (fileExports,
        fold (\<lambda>spec im.
            (case spec of
               ImportSpecifier name \<Rightarrow>
                 if truthy name
                 then im @ [\<lparr>importedName = the name,
                             sourceFile = resolveImportPath P F file (the source)\<rparr>]
                 else im
             | ImportDefaultSpecifier \<Rightarrow>
                 im @ [\<lparr>importedName = ''default'',
                        sourceFile = resolveImportPath P F file (the source)\<rparr>]
             | ImportNamespaceSpecifier \<Rightarrow>
                 im @ [\<lparr>importedName = ''*'',
                        sourceFile = resolveImportPath P F file (the source)\<rparr>]))
          specifiers fileImports))"

text \<open>
  The fallback extractor. \<open>inCode\<close> reads the normalized text at the start offset of a
  match; reading past the end gives \<open>undefined\<close>, which is not a blank. \<open>group m n\<close> is
  \<^verbatim>\<open>match[n]\<close>. \<open>exportedNames\<close> and \<open>localNames\<close> are the two \<open>map\<close> calls over the
  comma-separated brace list: the part after the last \<open>as\<close>, and the part before the
  first.
\<close>

definition inCode :: "string \<Rightarrow> nat \<Rightarrow> bool" where
  "inCode strippedContent i = (if i < length strippedContent then strippedContent ! i \<noteq> SP else True)"

definition group :: "rmatch \<Rightarrow> nat \<Rightarrow> string" where
  "group m n = (case groups m n of None \<Rightarrow> [] | Some s \<Rightarrow> s)"

definition exportedNames :: "string \<Rightarrow> string list" where
  "exportedNames list = map (\<lambda>s. trim (last (split_regex asRegex (trim s)))) (split_char (CHR '','') list)"

definition localNames :: "string \<Rightarrow> string list" where
  "localNames list = map (\<lambda>s. trim (hd (split_regex asRegex (trim s)))) (split_char (CHR '','') list)"

definition push_imports :: "pathlib \<Rightarrow> fs \<Rightarrow> string \<Rightarrow> string \<Rightarrow> string list
    \<Rightarrow> ImportRecord list \<Rightarrow> ImportRecord list" where
  "push_imports P F file source names fileImports =
     fold (\<lambda>name im. if name \<noteq> [] then
         im @ [\<lparr>importedName = name, sourceFile = resolveImportPath P F file source\<rparr>] else im)
       names fileImports"

definition extractExportsAndImportsViaRegex :: "pathlib \<Rightarrow> fs \<Rightarrow> string \<Rightarrow> string \<Rightarrow> string
    \<Rightarrow> string list \<times> ImportRecord list \<Rightarrow> string list \<times> ImportRecord list" where
  "extractExportsAndImportsViaRegex P F content strippedContent file acc =
     (let (fileExports, fileImports) = acc;
          fileExports1 = (if regex_test exportDefaultRegex strippedContent
                          then set_add fileExports ''default'' else fileExports);
          fileExports2 = fold (\<lambda>m ex. if \<not> inCode strippedContent (index m) then ex
                                 else set_add ex (group m 1))
                           (matchAll namedExportDeclRegex strippedContent) fileExports1;
          (fileExports3, fileImports3) =
             fold (\<lambda>m (ex, im). if \<not> inCode strippedContent (index m) then (ex, im)
                    else (fold (\<lambda>name ex'. if name \<noteq> [] then set_add ex' name else ex')
                            (exportedNames (group m 1)) ex,
                          if truthy (groups m 2)
                          then push_imports P F file (group m 2) (localNames (group m 1)) im
                          else im))
               (matchAll exportBraceRegex content) (fileExports2, fileImports);
          (fileExports4, fileImports4) =
             fold (\<lambda>m (ex, im). if \<not> inCode strippedContent (index m) then (ex, im)
                    else (set_add ex (''* from '' @ group m 1),
                          im @ [\<lparr>importedName = ''*'',
                                 sourceFile = resolveImportPath P F file (group m 1)\<rparr>]))
               (matchAll exportAllRegex content) (fileExports3, fileImports3);
          fileExports5 = fold (\<lambda>m ex. if \<not> inCode strippedContent (index m) then ex
                                 else set_add ex (group m 1))
                           (matchAll tsExportTypeRegex strippedContent) fileExports4;
          fileImports6 = fold (\<lambda>m im. if \<not> inCode strippedContent (index m) then im
                                 else push_imports P F file (group m 2) (localNames (group m 1)) im)
                           (matchAll namedImportRegex content) fileImports4;
          fileImports7 = fold (\<lambda>m im. if \<not> inCode strippedContent (index m) then im
                                 else im @ [\<lparr>importedName = ''default'',
                                   sourceFile = resolveImportPath P F file (group m 2)\<rparr>])
                           (matchAll defaultImportRegex content) fileImports6;
          fileImports8 = fold (\<lambda>m im. if \<not> inCode strippedContent (index m) then im
                                 else im @ [\<lparr>importedName = ''*'',
                                   sourceFile = resolveImportPath P F file (group m 1)\<rparr>])
                           (matchAll namespaceImportRegex content) fileImports7
      in (fileExports5, fileImports8))"

text \<open>
  \<open>extractRecords\<close> is the body of the loop of \<open>buildExportGraph\<close> for a file that could be
  read: the primary parser and the walker, or the fallback when the parser throws.
  \<open>addFile\<close> is one round of the loop: a file whose read throws is skipped by the outer
  \<open>catch\<close>, and the two maps stay as they are.
\<close>

definition extractRecords :: "(string \<Rightarrow> Node list option) \<Rightarrow> pathlib \<Rightarrow> fs \<Rightarrow> string \<Rightarrow> string
    \<Rightarrow> string list \<times> ImportRecord list" where
  "extractRecords parse P F file content =
     (case parse content of
        Some ast \<Rightarrow> fold (visit P F file) ast ([], [])
      | None \<Rightarrow> extractExportsAndImportsViaRegex P F content
                  (stripLiteralsAndComments content) file ([], []))"

definition addFile :: "(string \<Rightarrow> Node list option) \<Rightarrow> pathlib \<Rightarrow> fs \<Rightarrow> string
    \<Rightarrow> ExportGraph \<Rightarrow> ExportGraph" where
  "addFile parse P F file graph =
     (case readFileSync F file of
        None \<Rightarrow> graph
      | Some content \<Rightarrow>
         (let (fileExports, fileImports) = extractRecords parse P F file content
          in \<lparr>exports = AList.update file fileExports (exports graph),
              imports = AList.update file fileImports (imports graph)\<rparr>))"

definition buildExportGraph :: "(string \<Rightarrow> Node list option) \<Rightarrow> pathlib \<Rightarrow> fs \<Rightarrow> string list
    \<Rightarrow> ExportGraph" where
  "buildExportGraph parse P F files = fold (addFile parse P F) files \<lparr>exports = [], imports = []\<rparr>"


section \<open>The unused-export detector\<close>

text \<open>
  \<open>getExportLine\<close> reads the file again and returns the number of the first line that
  includes both \<^verbatim>\<open>export\<close> and the name, or 0. \<open>collectImports\<close> is the first loop of
  \<open>findUnusedExports\<close> (the map \<open>allImports\<close>) and \<open>recordImport\<close> the body of its inner
  loop; \<open>findUnusedExports\<close> is the second loop.
\<close>

record UnusedExport =
  ue_file :: string
  ue_exportName :: string
  ue_line :: nat

fun includes_str :: "string \<Rightarrow> string \<Rightarrow> bool" where
  "includes_str [] sub = (sub = [])"
| "includes_str (c # s) sub = (startsWith (c # s) sub \<or> includes_str s sub)"

fun first_line :: "nat \<Rightarrow> string \<Rightarrow> string list \<Rightarrow> nat" where
  "first_line i exportName [] = 0"
| "first_line i exportName (l # ls) =
     (if includes_str l ''export'' \<and> includes_str l exportName then i + 1
      else first_line (i + 1) exportName ls)"

definition getExportLine :: "fs \<Rightarrow> string \<Rightarrow> string \<Rightarrow> nat" where
  "getExportLine F file exportName =
     (case readFileSync F file of
        None \<Rightarrow> 0
      | Some content \<Rightarrow> first_line 0 exportName (split_char NL content))"

definition lookup_set :: "(string \<times> string list) list \<Rightarrow> string \<Rightarrow> string list" where
  "lookup_set m k = (case map_of m k of None \<Rightarrow> [] | Some s \<Rightarrow> s)"

definition recordImport :: "ImportRecord \<Rightarrow> (string \<times> string list) list
    \<Rightarrow> (string \<times> string list) list" where
  "recordImport r allImports =
     (let allImports1 = (if map_of allImports (sourceFile r) = None
                         then AList.update (sourceFile r) [] allImports else allImports)
      in AList.update (sourceFile r)
           (set_add (lookup_set allImports1 (sourceFile r)) (importedName r)) allImports1)"

definition collectImports :: "ExportGraph \<Rightarrow> (string \<times> string list) list" where
  "collectImports graph =
     fold (\<lambda>(importingFile, fileImports) allImports. fold recordImport fileImports allImports)
       (imports graph) []"

definition findUnusedExports :: "fs \<Rightarrow> ExportGraph \<Rightarrow> UnusedExport list" where
  "findUnusedExports F graph =
     (let allImports = collectImports graph
      in concat (map (\<lambda>(file, fileExports).
           (let usedInFile = lookup_set allImports file
            in concat (map (\<lambda>exportName.
                 if startsWith exportName ''*'' then []
                 else if \<not> (exportName \<in> set usedInFile \<or> ''*'' \<in> set usedInFile
                            \<or> (exportName = ''default'' \<and> ''default'' \<in> set usedInFile))
                 then [\<lparr>ue_file = file, ue_exportName = exportName,
                        ue_line = getExportLine F file exportName\<rparr>]
                 else [])
               fileExports)))
          (exports graph)))"

text \<open>
  \<open>isEntryPoint\<close>: the five patterns are anchored prefixes of the lower-cased relative
  path. \<open>toLowerCase\<close> is modelled on the ASCII letters, which are the only characters the
  patterns can match.
\<close>

definition toLowerCase :: "string \<Rightarrow> string" where
  "toLowerCase s = map (\<lambda>c. let n = (of_char c :: nat) in
      if 65 \<le> n \<and> n \<le> 90 then char_of (n + 32) else c) s"

definition isEntryPoint :: "pathlib \<Rightarrow> string \<Rightarrow> string \<Rightarrow> bool" where
  "isEntryPoint P file projectPath =
     (let relPath = toLowerCase (relative P projectPath file)
      in list_ex (startsWith relPath)
           [''src/index.'', ''src/main.'', ''src/app.'', ''index.'', ''main.''])"

section \<open>The cycle detector\<close>

text \<open>
  The depth-first search mutates four collections; the model passes them as a state.
  The \<open>path\<close> array is pushed before the dependencies are visited and popped after,
  so each call receives the path extended by its caller. The recursion takes fuel, which
  bounds its depth: \<open>None\<close> means the fuel ran out. \<open>findCircularDependencies\<close> starts
  each search with more fuel than there are files.
\<close>

record DfsState =
  cycles :: "string list list"
  visited :: "string list"
  inStack :: "string list"
  reportedEdges :: "string list"

fun indexOf :: "'a list \<Rightarrow> 'a \<Rightarrow> nat option" where
  "indexOf [] x = None"
| "indexOf (y # ys) x = (if y = x then Some 0 else map_option Suc (indexOf ys x))"

fun join_with :: "string \<Rightarrow> string list \<Rightarrow> string" where
  "join_with sep [] = []"
| "join_with sep [x] = x"
| "join_with sep (x # y # ys) = x @ sep @ join_with sep (y # ys)"

definition edgeKey :: "pathlib \<Rightarrow> string \<Rightarrow> string list \<Rightarrow> string" where
  "edgeKey P projectPath cycle = join_with ''|'' (sort (map (relative P projectPath) cycle))"

fun foldM :: "('a \<Rightarrow> 's \<Rightarrow> 's option) \<Rightarrow> 'a list \<Rightarrow> 's \<Rightarrow> 's option" where
  "foldM f [] s = Some s"
| "foldM f (x # xs) s = (case f x s of None \<Rightarrow> None | Some s' \<Rightarrow> foldM f xs s')"

definition buildAdjacency :: "ExportGraph \<Rightarrow> string list \<Rightarrow> (string \<times> string list) list" where
  "buildAdjacency graph files =
     fold (\<lambda>(file, fileImports) adjacency.
        AList.update file
          (fold (\<lambda>r deps. if sourceFile r \<in> set files then set_add deps (sourceFile r) else deps)
             fileImports [])
          adjacency)
       (imports graph) []"

fun dfs :: "nat \<Rightarrow> pathlib \<Rightarrow> string \<Rightarrow> (string \<times> string list) list
    \<Rightarrow> string \<Rightarrow> string list \<Rightarrow> DfsState \<Rightarrow> DfsState option" where
  "dfs 0 P projectPath adjacency node path st = None"
| "dfs (Suc fuel) P projectPath adjacency node path st =
     (if node \<in> set (inStack st) then
        (case indexOf path node of
           None \<Rightarrow> Some st
         | Some cycleStart \<Rightarrow>
            (let cycle = drop cycleStart path;
                 key = edgeKey P projectPath cycle
             in if key \<notin> set (reportedEdges st)
                then Some (st\<lparr>reportedEdges := set_add (reportedEdges st) key,
                              cycles := cycles st @ [cycle]\<rparr>)
                else Some st))
      else if node \<in> set (visited st) then Some st
      else
        (case foldM (\<lambda>dep. dfs fuel P projectPath adjacency dep (path @ [node]))
                (lookup_set adjacency node)
                (st\<lparr>inStack := set_add (inStack st) node\<rparr>) of
           None \<Rightarrow> None
         | Some st' \<Rightarrow>
             Some (st'\<lparr>inStack := removeAll node (inStack st'),
                       visited := set_add (visited st') node\<rparr>)))"

definition findCircularDependencies :: "pathlib \<Rightarrow> ExportGraph \<Rightarrow> string list \<Rightarrow> string
    \<Rightarrow> string list list option" where
  "findCircularDependencies P graph files projectPath =
     map_option cycles
       (foldM (\<lambda>file st. if file \<notin> set (visited st)
                 then dfs (length files + 1) P projectPath (buildAdjacency graph files) file [] st
                 else Some st)
          files \<lparr>cycles = [], visited = [], inStack = [], reportedEdges = []\<rparr>)"

section \<open>The analysis\<close>

text \<open>
  \<open>analyzeUnusedExports\<close> builds the graph and turns the unused exports of the files that
  are no entry points, then the cycles, into issues. The message texts of an issue
  (\<open>description\<close>, \<open>suggestion\<close>) are left out.
\<close>

datatype IssueType = unused_export | circular_dependency
datatype IssueSeverity = critical | high | medium | low

record TreeShakingIssue =
  issue_type :: IssueType
  severity :: IssueSeverity
  issue_file :: string
  issue_line :: "nat option"
  pattern :: string
  estimatedImpact :: nat

fun show_nat :: "nat \<Rightarrow> string" where
  "show_nat n = (if n < 10 then [char_of (48 + n)] else show_nat (n div 10) @ [char_of (48 + n mod 10)])"

declare show_nat.simps [simp del]

definition analyzeUnusedExports :: "(string \<Rightarrow> Node list option) \<Rightarrow> pathlib \<Rightarrow> fs
    \<Rightarrow> string list \<Rightarrow> string \<Rightarrow> TreeShakingIssue list option" where
  "analyzeUnusedExports parse P F files projectPath =
     (let graph = buildExportGraph parse P F files;
          unusedExports = findUnusedExports F graph;
          issues = concat (map (\<lambda>u.
             if isEntryPoint P (ue_file u) projectPath then []
             else [\<lparr>issue_type = unused_export, severity = low,
                    issue_file = relative P projectPath (ue_file u), issue_line = Some (ue_line u),
                    pattern = ''export '' @ ue_exportName u, estimatedImpact = 500\<rparr>])
            unusedExports)
      in (case findCircularDependencies P graph files projectPath of
            None \<Rightarrow> None
          | Some found \<Rightarrow>
              Some (issues @ map (\<lambda>cycle.
                 (let relFiles = map (relative P projectPath) cycle
                  in \<lparr>issue_type = circular_dependency,
                      severity = (if length cycle \<le> 2 then high else critical),
                      issue_file = (case relFiles of [] \<Rightarrow> [] | f # _ \<Rightarrow> f),
                      issue_line = None,
                      pattern = ''circular: '' @ show_nat (length relFiles) @ '' files'',
                      estimatedImpact = length cycle * 2000\<rparr>))
                found)))"


section \<open>An example environment\<close>

text \<open>
  For the examples: path functions for absolute POSIX paths, a filesystem given by a
  list of files with their contents and a list of directories, and a parser that rejects
  every file, so that every file goes to the fallback extractor.
\<close>

definition norm_segments :: "string list \<Rightarrow> string list" where
  "norm_segments segs =
     fold (\<lambda>seg acc. if seg = [] \<or> seg = ''.'' then acc
                      else if seg = ''..'' then butlast acc else acc @ [seg]) segs []"

definition posix_normalize :: "string \<Rightarrow> string" where
  "posix_normalize p = CHR ''/'' # join_with ''/'' (norm_segments (split_char (CHR ''/'') p))"

definition posix :: pathlib where
  "posix = \<lparr>
     dirname = (\<lambda>p. CHR ''/'' # join_with ''/'' (butlast (norm_segments (split_char (CHR ''/'') p)))),
     resolve = (\<lambda>dir p. if startsWith p ''/'' then posix_normalize p
                         else posix_normalize (dir @ ''/'' @ p)),
     join = (\<lambda>dir p. posix_normalize (dir @ ''/'' @ p)),
     relative = (\<lambda>root p. if startsWith p (root @ ''/'') then drop (length root + 1) p else p)\<rparr>"

definition disk :: "(string \<times> string) list \<Rightarrow> string list \<Rightarrow> fs" where
  "disk files dirs = \<lparr>
     readFileSync = map_of files,
     existsSync = (\<lambda>p. p \<in> set (map fst files) \<or> p \<in> set dirs),
     statIsDirectory = (\<lambda>p. if p \<in> set dirs then Some True
                             else if p \<in> set (map fst files) then Some False else None)\<rparr>"

definition no_parse :: "string \<Rightarrow> Node list option" where
  "no_parse content = None"

section \<open>Properties of the normalizer\<close>

subsection \<open>What the normalizer keeps\<close>

text \<open>
  An output character is either the input character at the same offset or a blank.
\<close>


definition masked_by :: "char \<Rightarrow> char \<Rightarrow> bool" where
  "masked_by out c = (out = c \<or> out = SP)"

lemma masked_by_simps [simp]: "masked_by c c" "masked_by SP c" "masked_by (blank c) c"
  by (simp_all add: masked_by_def blank_def)

lemma line_comment_loop_split:
  "\<exists>pre. s = pre @ snd (line_comment_loop s) \<and> list_all2 masked_by (fst (line_comment_loop s)) pre"
proof (induction s)
  case Nil
  show ?case by simp
next
  case (Cons c s)
  then obtain pre where p: "s = pre @ snd (line_comment_loop s)"
    "list_all2 masked_by (fst (line_comment_loop s)) pre" by blast
  show ?case
  proof (cases "c = NL")
    case True
    then show ?thesis by simp
  next
    case False
    have "c # s = (c # pre) @ snd (line_comment_loop (c # s))"
      using False p(1)[symmetric] by (simp add: split_def Let_def)
    moreover have "list_all2 masked_by (fst (line_comment_loop (c # s))) (c # pre)"
      using False p(2) by (simp add: split_def Let_def)
    ultimately show ?thesis by blast
  qed
qed

lemma block_comment_loop_split:
  "\<exists>pre. s = pre @ snd (block_comment_loop s) \<and> list_all2 masked_by (fst (block_comment_loop s)) pre"
proof (induction s)
  case Nil
  show ?case by simp
next
  case (Cons c s)
  then obtain pre where p: "s = pre @ snd (block_comment_loop s)"
    "list_all2 masked_by (fst (block_comment_loop s)) pre" by blast
  show ?case
  proof (cases "c = CHR ''*'' \<and> next_is s (CHR ''/'')")
    case True
    then obtain s' where s: "s = CHR ''/'' # s'"
      by (cases s) (auto simp: next_is_def)
    have "c # s = [c, CHR ''/''] @ snd (block_comment_loop (c # s))"
      using True s by simp
    moreover have "list_all2 masked_by (fst (block_comment_loop (c # s))) [c, CHR ''/'']"
      using True by simp
    ultimately show ?thesis by blast
  next
    case False
    have "c # s = (c # pre) @ snd (block_comment_loop (c # s))"
      using False p(1)[symmetric] by (auto simp add: split_def Let_def)
    moreover have "list_all2 masked_by (fst (block_comment_loop (c # s))) (c # pre)"
      using False p(2) by (auto simp add: split_def Let_def)
    ultimately show ?thesis by blast
  qed
qed

lemma template_loop_split:
  "\<exists>pre. s = pre @ snd (template_loop d s) \<and> list_all2 masked_by (fst (template_loop d s)) pre"
proof (induction d s rule: template_loop.induct)
  case (1 depth)
  show ?case by simp
next
  case (2 depth c s)
  consider (esc) "c = BSL \<and> s \<noteq> []"
    | (hole) "\<not> (c = BSL \<and> s \<noteq> [])" "c = CHR ''$'' \<and> next_is s (CHR ''{'')"
    | (close) "\<not> (c = BSL \<and> s \<noteq> [])" "\<not> (c = CHR ''$'' \<and> next_is s (CHR ''{''))"
        "c = CHR ''}'' \<and> depth > 0"
    | (fin) "\<not> (c = BSL \<and> s \<noteq> [])" "\<not> (c = CHR ''$'' \<and> next_is s (CHR ''{''))"
        "\<not> (c = CHR ''}'' \<and> depth > 0)" "c = BT \<and> depth = 0"
    | (other) "\<not> (c = BSL \<and> s \<noteq> [])" "\<not> (c = CHR ''$'' \<and> next_is s (CHR ''{''))"
        "\<not> (c = CHR ''}'' \<and> depth > 0)" "\<not> (c = BT \<and> depth = 0)"
    by blast
  then show ?case
  proof cases
    case esc
    then obtain e s' where s: "s = e # s'" by (cases s) auto
    from 2(1) esc obtain pre where p: "tl s = pre @ snd (template_loop depth (tl s))"
      "list_all2 masked_by (fst (template_loop depth (tl s))) pre" by blast
    have "c # s = (c # e # pre) @ snd (template_loop depth (c # s))"
      using esc s p(1)[symmetric] by (simp add: split_def Let_def)
    moreover have "list_all2 masked_by (fst (template_loop depth (c # s))) (c # e # pre)"
      using esc s p(2) by (simp add: split_def Let_def)
    ultimately show ?thesis by blast
  next
    case hole
    then obtain s' where s: "s = CHR ''{'' # s'" by (cases s) (auto simp: next_is_def)
    from 2(2) hole obtain pre where p: "tl s = pre @ snd (template_loop (depth + 1) (tl s))"
      "list_all2 masked_by (fst (template_loop (depth + 1) (tl s))) pre" by blast
    have "c # s = (c # CHR ''{'' # pre) @ snd (template_loop depth (c # s))"
      using hole s p(1)[symmetric] by (simp add: split_def Let_def next_is_def)
    moreover have "list_all2 masked_by (fst (template_loop depth (c # s))) (c # CHR ''{'' # pre)"
      using hole s p(2) by (simp add: split_def Let_def next_is_def)
    ultimately show ?thesis by blast
  next
    case close
    from 2(3) close obtain pre where p: "s = pre @ snd (template_loop (depth - 1) s)"
      "list_all2 masked_by (fst (template_loop (depth - 1) s)) pre" by blast
    have "c # s = (c # pre) @ snd (template_loop depth (c # s))"
      using close p(1)[symmetric] by (simp add: split_def Let_def)
    moreover have "list_all2 masked_by (fst (template_loop depth (c # s))) (c # pre)"
      using close p(2) by (simp add: split_def Let_def)
    ultimately show ?thesis by blast
  next
    case fin
    have "c # s = [c] @ snd (template_loop depth (c # s))"
      using fin by simp
    moreover have "list_all2 masked_by (fst (template_loop depth (c # s))) [c]"
      using fin by simp
    ultimately show ?thesis by blast
  next
    case other
    from 2(4) other obtain pre where p: "s = pre @ snd (template_loop depth s)"
      "list_all2 masked_by (fst (template_loop depth s)) pre" by blast
    have "c # s = (c # pre) @ snd (template_loop depth (c # s))"
      using other p(1)[symmetric] by (auto simp add: split_def Let_def)
    moreover have "list_all2 masked_by (fst (template_loop depth (c # s))) (c # pre)"
      using other p(2) by (auto simp add: split_def Let_def)
    ultimately show ?thesis by blast
  qed
qed


lemma string_loop_split:
  "\<exists>pre. s = pre @ snd (string_loop q s) \<and> list_all2 masked_by (fst (string_loop q s)) pre"
proof (induction q s rule: string_loop.induct)
  case (1 quote)
  show ?case by simp
next
  case (2 quote c s)
  consider (esc) "c = BSL \<and> s \<noteq> []"
    | (fin) "\<not> (c = BSL \<and> s \<noteq> [])" "c = quote"
    | (nl) "\<not> (c = BSL \<and> s \<noteq> [])" "c \<noteq> quote" "c = NL"
    | (other) "\<not> (c = BSL \<and> s \<noteq> [])" "c \<noteq> quote" "c \<noteq> NL"
    by blast
  then show ?case
  proof cases
    case esc
    then obtain e s' where s: "s = e # s'" by (cases s) auto
    from 2(1) esc obtain pre where p: "tl s = pre @ snd (string_loop quote (tl s))"
      "list_all2 masked_by (fst (string_loop quote (tl s))) pre" by blast
    have "c # s = (c # e # pre) @ snd (string_loop quote (c # s))"
      using esc s p(1)[symmetric] by (simp add: split_def Let_def)
    moreover have "list_all2 masked_by (fst (string_loop quote (c # s))) (c # e # pre)"
      using esc s p(2) by (simp add: split_def Let_def)
    ultimately show ?thesis by blast
  next
    case fin
    have "c # s = [c] @ snd (string_loop quote (c # s))"
      using fin by auto
    moreover have "list_all2 masked_by (fst (string_loop quote (c # s))) [c]"
      using fin by auto
    ultimately show ?thesis by blast
  next
    case nl
    have "c # s = [c] @ snd (string_loop quote (c # s))"
      using nl by auto
    moreover have "list_all2 masked_by (fst (string_loop quote (c # s))) [c]"
      using nl by auto
    ultimately show ?thesis by blast
  next
    case other
    from 2(2) other obtain pre where p: "s = pre @ snd (string_loop quote s)"
      "list_all2 masked_by (fst (string_loop quote s)) pre" by blast
    have "c # s = (c # pre) @ snd (string_loop quote (c # s))"
      using other p(1)[symmetric] by (auto simp add: split_def Let_def)
    moreover have "list_all2 masked_by (fst (string_loop quote (c # s))) (c # pre)"
      using other p(2) by (auto simp add: split_def Let_def)
    ultimately show ?thesis by blast
  qed
qed

lemma masked_by_glue:
  assumes "s = pre @ rest" "list_all2 masked_by out pre" "list_all2 masked_by out' rest"
  shows "list_all2 masked_by (out @ out') s"
  using assms by (simp add: list_all2_appendI)

lemma stripLiteralsAndComments_masks:
  "list_all2 masked_by (stripLiteralsAndComments s) s"
proof (induction s rule: stripLiteralsAndComments.induct)
  case 1
  show ?case by simp
next
  case (2 ch s)
  consider (line) "ch = CHR ''/'' \<and> next_is s (CHR ''/'')"
    | (block) "\<not> (ch = CHR ''/'' \<and> next_is s (CHR ''/''))" "ch = CHR ''/'' \<and> next_is s (CHR ''*'')"
    | (tmpl) "\<not> (ch = CHR ''/'' \<and> next_is s (CHR ''/''))" "\<not> (ch = CHR ''/'' \<and> next_is s (CHR ''*''))"
        "ch = BT"
    | (str) "\<not> (ch = CHR ''/'' \<and> next_is s (CHR ''/''))" "\<not> (ch = CHR ''/'' \<and> next_is s (CHR ''*''))"
        "ch \<noteq> BT" "ch = SQ \<or> ch = DQ"
    | (code) "\<not> (ch = CHR ''/'' \<and> next_is s (CHR ''/''))" "\<not> (ch = CHR ''/'' \<and> next_is s (CHR ''*''))"
        "ch \<noteq> BT" "\<not> (ch = SQ \<or> ch = DQ)"
    by blast
  then show ?case
  proof cases
    case line
    then obtain s' where s: "s = CHR ''/'' # s'" by (cases s) (auto simp: next_is_def)
    obtain pre where p: "s' = pre @ snd (line_comment_loop s')"
      "list_all2 masked_by (fst (line_comment_loop s')) pre"
      using line_comment_loop_split by blast
    have ih: "list_all2 masked_by (stripLiteralsAndComments (snd (line_comment_loop s')))
        (snd (line_comment_loop s'))"
      using 2(1) line s by simp
    have "list_all2 masked_by (fst (line_comment_loop s')
        @ stripLiteralsAndComments (snd (line_comment_loop s'))) s'"
      by (rule masked_by_glue [OF p ih])
    then show ?thesis using line s by (simp add: next_is_def)
  next
    case block
    then obtain s' where s: "s = CHR ''*'' # s'" by (cases s) (auto simp: next_is_def)
    obtain pre where p: "s' = pre @ snd (block_comment_loop s')"
      "list_all2 masked_by (fst (block_comment_loop s')) pre"
      using block_comment_loop_split by blast
    have ih: "list_all2 masked_by (stripLiteralsAndComments (snd (block_comment_loop s')))
        (snd (block_comment_loop s'))"
      using 2(2) block s by simp
    have "list_all2 masked_by (fst (block_comment_loop s')
        @ stripLiteralsAndComments (snd (block_comment_loop s'))) s'"
      by (rule masked_by_glue [OF p ih])
    then show ?thesis using block s by (simp add: next_is_def)
  next
    case tmpl
    obtain pre where p: "s = pre @ snd (template_loop 0 s)"
      "list_all2 masked_by (fst (template_loop 0 s)) pre"
      using template_loop_split by blast
    have ih: "list_all2 masked_by (stripLiteralsAndComments (snd (template_loop 0 s)))
        (snd (template_loop 0 s))"
      using 2(3) tmpl by simp
    have "list_all2 masked_by (fst (template_loop 0 s)
        @ stripLiteralsAndComments (snd (template_loop 0 s))) s"
      by (rule masked_by_glue [OF p ih])
    then show ?thesis using tmpl by simp
  next
    case str
    obtain pre where p: "s = pre @ snd (string_loop ch s)"
      "list_all2 masked_by (fst (string_loop ch s)) pre"
      using string_loop_split by blast
    have ih: "list_all2 masked_by (stripLiteralsAndComments (snd (string_loop ch s)))
        (snd (string_loop ch s))"
      using 2(4) str by simp
    have "list_all2 masked_by (fst (string_loop ch s)
        @ stripLiteralsAndComments (snd (string_loop ch s))) s"
      by (rule masked_by_glue [OF p ih])
    then show ?thesis using str by auto
  next
    case code
    have "list_all2 masked_by (stripLiteralsAndComments s) s"
      using 2(5) code by simp
    then show ?thesis using code by auto
  qed
qed

lemma stripLiteralsAndComments_length:
  "length (stripLiteralsAndComments s) = length s"
  using stripLiteralsAndComments_masks by (rule list_all2_lengthD)

lemma stripLiteralsAndComments_nth:
  assumes "i < length s"
  shows "stripLiteralsAndComments s ! i = s ! i \<or> stripLiteralsAndComments s ! i = SP"
  using list_all2_nthD2 [OF stripLiteralsAndComments_masks assms]
  by (simp add: masked_by_def)

lemma template_loop_blank:
  "c \<in> set (fst (template_loop d s)) \<Longrightarrow> c = SP \<or> c = NL"
  by (induction d s rule: template_loop.induct)
     (auto simp: split_def Let_def blank_def split: if_splits)

section \<open>Claims about the normalizer\<close>

text \<open>
  C7 (length). The output of the normalizer has the length of its input; the lemma
  \<open>stripLiteralsAndComments_length\<close> above proves it for every input.

  C7 (newlines): the claim is that every newline of the input is kept at its offset.
  The escape branch of the string loop (and of the template loop) pushes two blanks for
  a backslash and the character after it, whatever that character is. For the six
  characters \<^verbatim>\<open>"a\<close>, backslash, newline, \<^verbatim>\<open>b"\<close> the newline at offset 3 becomes a
  blank, so the normalized text has one line where the raw text has two.
\<close>

theorem stripLiteralsAndComments_escaped_newline:
  "[DQ, CHR ''a'', BSL, NL, CHR ''b'', DQ] ! 3 = NL \<and>
   stripLiteralsAndComments [DQ, CHR ''a'', BSL, NL, CHR ''b'', DQ] ! 3 = SP \<and>
   stripLiteralsAndComments [DQ, CHR ''a'', BSL, NL, CHR ''b'', DQ] = [SP, SP, SP, SP, SP, SP]"
  by (simp add: next_is_def)













section \<open>Claims about the module resolver\<close>

text \<open>
  C4. Module resolution is deterministic. The resolver reads the filesystem only through
  \<open>existsSync\<close> and \<open>statSync\<close>: two snapshots that answer these two queries alike give
  the same resolved path for the same importing file and specifier, whatever else differs
  between them (the contents of the files, for one). In particular two invocations on one
  snapshot return the same path, so the same (importing file, specifier) always gives the
  same node key.
\<close>

theorem resolveImportPath_deterministic:
  assumes "existsSync F1 = existsSync F2" and "statIsDirectory F1 = statIsDirectory F2"
  shows "resolveImportPath P F1 fromFile importPath = resolveImportPath P F2 fromFile importPath"
  by (simp only: resolveImportPath_def resolveIndexFile_def assms)

theorem resolveImportPath_deterministic_witness:
  "existsSync (disk [(''/p/a.ts'', ''export const a = 1'')] [''/p''])
     = existsSync (disk [(''/p/a.ts'', ''export const b = 2'')] [''/p''])
   \<and> statIsDirectory (disk [(''/p/a.ts'', ''export const a = 1'')] [''/p''])
     = statIsDirectory (disk [(''/p/a.ts'', ''export const b = 2'')] [''/p''])
   \<and> resolveImportPath posix (disk [(''/p/a.ts'', ''export const a = 1'')] [''/p'']) ''/p/b.ts'' ''./a''
     = resolveImportPath posix (disk [(''/p/a.ts'', ''export const b = 2'')] [''/p'']) ''/p/b.ts'' ''./a''"
proof -
  have e: "existsSync (disk [(''/p/a.ts'', ''export const a = 1'')] [''/p''])
     = existsSync (disk [(''/p/a.ts'', ''export const b = 2'')] [''/p''])"
    by (simp add: disk_def)
  have d: "statIsDirectory (disk [(''/p/a.ts'', ''export const a = 1'')] [''/p''])
     = statIsDirectory (disk [(''/p/a.ts'', ''export const b = 2'')] [''/p''])"
    by (simp add: disk_def fun_eq_iff)
  show ?thesis
    using e d resolveImportPath_deterministic [OF e d, of posix "''/p/b.ts''" "''./a''"]
    by blast
qed


text \<open>
  The resolution order in the words of the specification: a list of steps, each of which
  succeeds with a path or fails, tried in order. The fixed extension-priority list is
  written out; ``the first that exists'' is the head of the candidates that exist.
  Step 1 is the literal path that exists and is no directory. Step 2 is the literal path
  that is a directory: the first index file that exists, in the order of the priority
  list, or the directory itself. Step 3 is the first literal path with an extension of
  the priority list appended that exists. Step 4 is, for a path with a compiled-output
  extension, the first path with a source extension in its place that exists.
\<close>

definition extension_priority :: "string list" where
  "extension_priority = [''.ts'', ''.tsx'', ''.js'', ''.jsx'', ''.mjs'', ''.mts'']"

definition first_existing :: "fs \<Rightarrow> string list \<Rightarrow> string option" where
  "first_existing F candidates =
     (case filter (existsSync F) candidates of [] \<Rightarrow> None | path # _ \<Rightarrow> Some path)"

definition first_success :: "string option list \<Rightarrow> string option" where
  "first_success steps = (case filter (\<lambda>step. step \<noteq> None) steps of [] \<Rightarrow> None | step # _ \<Rightarrow> step)"

definition source_extensions :: "string \<Rightarrow> (nat \<times> string list) option" where
  "source_extensions path =
     (if endsWith path ''.js'' then Some (3, [''.ts'', ''.tsx'', ''.js''])
      else if endsWith path ''.jsx'' then Some (4, [''.tsx'', ''.jsx''])
      else None)"

definition resolution_steps :: "pathlib \<Rightarrow> fs \<Rightarrow> string \<Rightarrow> string option list" where
  "resolution_steps P F literal =
     [if existsSync F literal \<and> statIsDirectory F literal \<noteq> Some True then Some literal else None,
      if existsSync F literal \<and> statIsDirectory F literal = Some True
      then Some (case first_existing F
                        (map (\<lambda>ext. join P literal (''index'' @ ext)) extension_priority) of
                   Some indexPath \<Rightarrow> indexPath
                 | None \<Rightarrow> literal)
      else None,
      first_existing F (map (\<lambda>ext. literal @ ext) extension_priority),
      (case source_extensions literal of
         None \<Rightarrow> None
       | Some (n, exts) \<Rightarrow>
           first_existing F (map (\<lambda>ext. take (length literal - n) literal @ ext) exts))]"

definition resolution_by_steps :: "pathlib \<Rightarrow> fs \<Rightarrow> string \<Rightarrow> string \<Rightarrow> string" where
  "resolution_by_steps P F fromFile importPath =
     (if \<not> startsWith importPath ''.'' then importPath
      else (let literal = resolve P (dirname P fromFile) importPath
            in case first_success (resolution_steps P F literal) of
                 Some path \<Rightarrow> path
               | None \<Rightarrow> literal))"

lemma find_first_existing: "find (existsSync F) xs = first_existing F xs"
  by (induction xs) (simp_all add: first_existing_def)

lemma resolveIndexFile_first_existing:
  "resolveIndexFile P F d
     = first_existing F (map (\<lambda>ext. join P d (''index'' @ ext)) extension_priority)"
  by (simp only: resolveIndexFile_def find_first_existing RESOLVE_EXTENSIONS_def
      extension_priority_def)

lemma first_existing_nonempty:
  "\<not> existsSync F [] \<Longrightarrow> first_existing F xs = Some p \<Longrightarrow> p \<noteq> []"
  unfolding find_first_existing [symmetric] by (auto simp: find_Some_iff)

lemma resolveIndexFile_truthy:
  assumes "\<not> existsSync F []"
  shows "truthy (resolveIndexFile P F d) = (resolveIndexFile P F d \<noteq> None)"
  using first_existing_nonempty [OF assms]
  by (cases "resolveIndexFile P F d") (auto simp: truthy_def resolveIndexFile_first_existing)

lemma resolveIndexFile_missing:
  assumes "\<forall>ext \<in> set extension_priority. existsSync F (join P d (''index'' @ ext)) \<longrightarrow> existsSync F d"
    and "\<not> existsSync F d"
  shows "resolveIndexFile P F d = None"
  using assms
  by (auto simp: resolveIndexFile_def find_None_iff RESOLVE_EXTENSIONS_def extension_priority_def)

lemma steps_file:
  "existsSync F l \<Longrightarrow> statIsDirectory F l \<noteq> Some True
    \<Longrightarrow> first_success (resolution_steps P F l) = Some l"
  by (simp add: first_success_def resolution_steps_def)

lemma steps_dir:
  "existsSync F l \<Longrightarrow> statIsDirectory F l = Some True
    \<Longrightarrow> first_success (resolution_steps P F l)
        = Some (case resolveIndexFile P F l of Some indexPath \<Rightarrow> indexPath | None \<Rightarrow> l)"
  by (simp add: first_success_def resolution_steps_def resolveIndexFile_first_existing)

lemma steps_missing:
  "\<not> existsSync F l \<Longrightarrow> first_success (resolution_steps P F l) =
     (case find (existsSync F) (map (\<lambda>ext. l @ ext) RESOLVE_EXTENSIONS) of
        Some withExt \<Rightarrow> Some withExt
      | None \<Rightarrow>
         (if endsWith l ''.js'' then
            find (existsSync F) (map (\<lambda>ext. take (length l - 3) l @ ext) [''.ts'', ''.tsx'', ''.js''])
          else if endsWith l ''.jsx'' then
            find (existsSync F) (map (\<lambda>ext. take (length l - 4) l @ ext) [''.tsx'', ''.jsx''])
          else None))"
proof -
  have ext: "RESOLVE_EXTENSIONS = extension_priority"
    by (simp add: RESOLVE_EXTENSIONS_def extension_priority_def)
  show "\<not> existsSync F l \<Longrightarrow> ?thesis"
    unfolding find_first_existing ext
    by (simp add: first_success_def resolution_steps_def source_extensions_def
        split: option.splits)
qed

text \<open>
  C5, amended. On a filesystem where the empty path does not exist and no index file
  exists inside a path that does not exist, \<open>resolveImportPath\<close> is the resolution by
  steps: a specifier that does not start with a dot is returned unchanged, and a
  specifier that starts with a dot resolves to the first success among steps 1 to 4, or
  else to the literal resolved path, which then does not exist on the filesystem. There
  is no EXTERNAL value: a result is external when it is the path of no analysed file.
\<close>

theorem resolveImportPath_resolution_order:
  assumes empty: "\<not> existsSync F []"
    and inside: "\<forall>ext \<in> set extension_priority.
      existsSync F (join P (resolve P (dirname P fromFile) importPath) (''index'' @ ext))
        \<longrightarrow> existsSync F (resolve P (dirname P fromFile) importPath)"
  shows "resolveImportPath P F fromFile importPath = resolution_by_steps P F fromFile importPath
    \<and> (startsWith importPath ''.''
          \<and> first_success (resolution_steps P F (resolve P (dirname P fromFile) importPath)) = None
        \<longrightarrow> \<not> existsSync F (resolveImportPath P F fromFile importPath))"
proof (cases "startsWith importPath ''.''")
  case False
  then show ?thesis by (simp add: resolveImportPath_def resolution_by_steps_def)
next
  case True
  let ?l = "resolve P (dirname P fromFile) importPath"
  note tr = resolveIndexFile_truthy [OF empty, of P ?l]
  show ?thesis
  proof (cases "existsSync F ?l")
    case ex: True
    show ?thesis
    proof (cases "statIsDirectory F ?l = Some True")
      case dir: True
      show ?thesis
        using True ex dir tr steps_dir [OF ex dir, of P]
        by (auto simp: resolveImportPath_def resolution_by_steps_def Let_def
            split: option.splits)
    next
      case nodir: False
      show ?thesis
        using True ex nodir steps_file [OF ex nodir, of P]
        by (simp add: resolveImportPath_def resolution_by_steps_def Let_def)
    qed
  next
    case nex: False
    have idx: "resolveIndexFile P F ?l = None"
      using resolveIndexFile_missing [of F P ?l] inside nex by simp
    have tr': "\<not> truthy (resolveIndexFile P F ?l)"
      using idx by (simp add: truthy_def)
    show ?thesis
      using True nex tr' steps_missing [OF nex, of P]
      by (simp add: resolveImportPath_def resolution_by_steps_def Let_def
          split: option.splits)
  qed
qed

text \<open>
  A filesystem on which each step decides one import of \<^verbatim>\<open>/p/src/b.ts\<close>: an exact file,
  a directory with two index files, a directory without one, a path that needs an
  extension, a \<^verbatim>\<open>.js\<close> specifier for a \<^verbatim>\<open>.ts\<close> file, and a path that nothing matches.
\<close>

definition resolver_disk :: fs where
  "resolver_disk = disk
     [(''/p/src/a.ts'', ''''), (''/p/src/b.ts'', ''''), (''/p/src/gen.ts'', ''''),
      (''/p/src/lib/index.js'', ''''), (''/p/src/lib/index.tsx'', '''')]
     [''/p'', ''/p/src'', ''/p/src/lib'', ''/p/src/empty'']"

lemma resolver_disk_empty: "\<not> existsSync resolver_disk []"
  by (simp add: resolver_disk_def disk_def)

lemma resolver_disk_inside:
  "\<forall>ext \<in> set extension_priority.
      existsSync resolver_disk
        (join posix (resolve posix (dirname posix ''/p/src/b.ts'') ''./a.ts'') (''index'' @ ext))
      \<longrightarrow> existsSync resolver_disk (resolve posix (dirname posix ''/p/src/b.ts'') ''./a.ts'')"
  "\<forall>ext \<in> set extension_priority.
      existsSync resolver_disk
        (join posix (resolve posix (dirname posix ''/p/src/b.ts'') ''./lib'') (''index'' @ ext))
      \<longrightarrow> existsSync resolver_disk (resolve posix (dirname posix ''/p/src/b.ts'') ''./lib'')"
  "\<forall>ext \<in> set extension_priority.
      existsSync resolver_disk
        (join posix (resolve posix (dirname posix ''/p/src/b.ts'') ''./empty'') (''index'' @ ext))
      \<longrightarrow> existsSync resolver_disk (resolve posix (dirname posix ''/p/src/b.ts'') ''./empty'')"
  "\<forall>ext \<in> set extension_priority.
      existsSync resolver_disk
        (join posix (resolve posix (dirname posix ''/p/src/b.ts'') ''./a'') (''index'' @ ext))
      \<longrightarrow> existsSync resolver_disk (resolve posix (dirname posix ''/p/src/b.ts'') ''./a'')"
  "\<forall>ext \<in> set extension_priority.
      existsSync resolver_disk
        (join posix (resolve posix (dirname posix ''/p/src/b.ts'') ''./gen.js'') (''index'' @ ext))
      \<longrightarrow> existsSync resolver_disk (resolve posix (dirname posix ''/p/src/b.ts'') ''./gen.js'')"
  "\<forall>ext \<in> set extension_priority.
      existsSync resolver_disk
        (join posix (resolve posix (dirname posix ''/p/src/b.ts'') ''./missing'') (''index'' @ ext))
      \<longrightarrow> existsSync resolver_disk (resolve posix (dirname posix ''/p/src/b.ts'') ''./missing'')"
  by code_simp+

lemma resolver_disk_steps:
  "resolution_by_steps posix resolver_disk ''/p/src/b.ts'' ''./a.ts'' = ''/p/src/a.ts''"
  "resolution_by_steps posix resolver_disk ''/p/src/b.ts'' ''./lib'' = ''/p/src/lib/index.tsx''"
  "resolution_by_steps posix resolver_disk ''/p/src/b.ts'' ''./empty'' = ''/p/src/empty''"
  "resolution_by_steps posix resolver_disk ''/p/src/b.ts'' ''./a'' = ''/p/src/a.ts''"
  "resolution_by_steps posix resolver_disk ''/p/src/b.ts'' ''./gen.js'' = ''/p/src/gen.ts''"
  "resolution_by_steps posix resolver_disk ''/p/src/b.ts'' ''./missing'' = ''/p/src/missing''"
  "startsWith ''./missing'' ''.'' \<and> first_success (resolution_steps posix resolver_disk
      (resolve posix (dirname posix ''/p/src/b.ts'') ''./missing'')) = None"
  by code_simp+

theorem resolveImportPath_resolution_order_witness:
  "resolveImportPath posix resolver_disk ''/p/src/b.ts'' ''./a.ts'' = ''/p/src/a.ts''
   \<and> resolveImportPath posix resolver_disk ''/p/src/b.ts'' ''./lib'' = ''/p/src/lib/index.tsx''
   \<and> resolveImportPath posix resolver_disk ''/p/src/b.ts'' ''./empty'' = ''/p/src/empty''
   \<and> resolveImportPath posix resolver_disk ''/p/src/b.ts'' ''./a'' = ''/p/src/a.ts''
   \<and> resolveImportPath posix resolver_disk ''/p/src/b.ts'' ''./gen.js'' = ''/p/src/gen.ts''
   \<and> resolveImportPath posix resolver_disk ''/p/src/b.ts'' ''./missing'' = ''/p/src/missing''
   \<and> \<not> existsSync resolver_disk ''/p/src/missing''"
proof -
  note order = resolveImportPath_resolution_order [OF resolver_disk_empty]
  have 1: "resolveImportPath posix resolver_disk ''/p/src/b.ts'' ''./a.ts'' = ''/p/src/a.ts''"
    using order [OF resolver_disk_inside(1)] resolver_disk_steps(1) by (simp only:)
  have 2: "resolveImportPath posix resolver_disk ''/p/src/b.ts'' ''./lib'' = ''/p/src/lib/index.tsx''"
    using order [OF resolver_disk_inside(2)] resolver_disk_steps(2) by (simp only:)
  have 3: "resolveImportPath posix resolver_disk ''/p/src/b.ts'' ''./empty'' = ''/p/src/empty''"
    using order [OF resolver_disk_inside(3)] resolver_disk_steps(3) by (simp only:)
  have 4: "resolveImportPath posix resolver_disk ''/p/src/b.ts'' ''./a'' = ''/p/src/a.ts''"
    using order [OF resolver_disk_inside(4)] resolver_disk_steps(4) by (simp only:)
  have 5: "resolveImportPath posix resolver_disk ''/p/src/b.ts'' ''./gen.js'' = ''/p/src/gen.ts''"
    using order [OF resolver_disk_inside(5)] resolver_disk_steps(5) by (simp only:)
  have 6: "resolveImportPath posix resolver_disk ''/p/src/b.ts'' ''./missing'' = ''/p/src/missing''"
    using order [OF resolver_disk_inside(6)] resolver_disk_steps(6) by (simp only:)
  have "\<not> existsSync resolver_disk
      (resolveImportPath posix resolver_disk ''/p/src/b.ts'' ''./missing'')"
    using order [OF resolver_disk_inside(6)] resolver_disk_steps(7) by blast
  then have 7: "\<not> existsSync resolver_disk ''/p/src/missing''"
    unfolding 6 .
  from 1 2 3 4 5 6 7 show ?thesis by blast
qed

text \<open>
  A project of two files, where \<^verbatim>\<open>b.ts\<close> imports \<^verbatim>\<open>a.ts\<close> by its absolute path.
\<close>

definition absolute_import_disk :: fs where
  "absolute_import_disk = disk
     [(''/p/src/a.ts'', ''export const foo = 1;''),
      (''/p/src/b.ts'', ''import { foo } from '' @ [SQ] @ ''/p/src/a.ts'' @ [SQ] @ '';'')]
     [''/p'', ''/p/src'']"

text \<open>
  C5, as stated: a specifier that does not begin with a relative-path marker resolves to
  EXTERNAL and never becomes a project node. The specifier \<^verbatim>\<open>/p/src/a.ts\<close> does not
  start with a dot; it is returned as it is, which is the path of an analysed file: the
  import is an edge to that file in the adjacency of the cycle detector, and it makes
  the export \<open>foo\<close> of \<^verbatim>\<open>a.ts\<close> used.
\<close>

theorem external_specifier_counterexample:
  "\<not> startsWith ''/p/src/a.ts'' ''.''
   \<and> resolveImportPath posix absolute_import_disk ''/p/src/b.ts'' ''/p/src/a.ts'' = ''/p/src/a.ts''
   \<and> imports (buildExportGraph no_parse posix absolute_import_disk [''/p/src/a.ts'', ''/p/src/b.ts''])
      = [(''/p/src/a.ts'', []),
         (''/p/src/b.ts'', [\<lparr>importedName = ''foo'', sourceFile = ''/p/src/a.ts''\<rparr>])]
   \<and> buildAdjacency
        (buildExportGraph no_parse posix absolute_import_disk [''/p/src/a.ts'', ''/p/src/b.ts''])
        [''/p/src/a.ts'', ''/p/src/b.ts'']
      = [(''/p/src/a.ts'', []), (''/p/src/b.ts'', [''/p/src/a.ts''])]
   \<and> findUnusedExports absolute_import_disk
        (buildExportGraph no_parse posix absolute_import_disk [''/p/src/a.ts'', ''/p/src/b.ts'']) = []"
  by code_simp


section \<open>Properties of the cycle detector\<close>

text \<open>
  Two facts carry the claims about the cycle detector. The search preserves an invariant
  (\<open>dfs_preserves\<close>): the keys of the reported cycles are pairwise different, they are
  the contents of \<open>reportedEdges\<close>, and no reported cycle repeats a file. And the search
  returns (\<open>dfs_total\<close>): every call that goes deeper puts a new file on the stack, so
  fuel beyond the number of files that are not on the stack is never used up.
\<close>

lemma set_set_add [simp]: "set (set_add xs x) = insert x (set xs)"
  by (auto simp: set_add_def)

lemma distinct_set_add: "distinct xs \<Longrightarrow> distinct (set_add xs x)"
  by (simp add: set_add_def)

lemma foldM_invariant:
  assumes "foldM f xs s = Some s'" and "I s"
    and "\<And>x t t'. x \<in> set xs \<Longrightarrow> I t \<Longrightarrow> f x t = Some t' \<Longrightarrow> I t'"
  shows "I s'"
  using assms
proof (induction xs arbitrary: s)
  case Nil
  then show ?case by simp
next
  case (Cons x xs)
  from Cons.prems(1) obtain t where t: "f x s = Some t" "foldM f xs t = Some s'"
    by (auto split: option.splits)
  have "I t" using Cons.prems(3) [of x s t] Cons.prems(2) t(1) by simp
  show ?case
  proof (rule Cons.IH [OF t(2) \<open>I t\<close>])
    fix y u u'
    assume "y \<in> set xs" "I u" "f y u = Some u'"
    then show "I u'" using Cons.prems(3) [of y u u'] by simp
  qed
qed

lemma foldM_total:
  assumes "I s"
    and "\<And>x t. x \<in> set xs \<Longrightarrow> I t \<Longrightarrow> \<exists>t'. f x t = Some t' \<and> I t'"
  shows "\<exists>s'. foldM f xs s = Some s' \<and> I s'"
  using assms
proof (induction xs arbitrary: s)
  case Nil
  then show ?case by simp
next
  case (Cons x xs)
  from Cons.prems(2) [of x s] Cons.prems(1) obtain t where t: "f x s = Some t" "I t"
    by auto
  from Cons.IH [OF t(2)] Cons.prems(2) obtain s' where "foldM f xs t = Some s'" "I s'"
    by auto
  then show ?case using t(1) by simp
qed

definition reported_once :: "pathlib \<Rightarrow> string \<Rightarrow> DfsState \<Rightarrow> bool" where
  "reported_once P projectPath st =
     (distinct (map (edgeKey P projectPath) (cycles st))
      \<and> set (map (edgeKey P projectPath) (cycles st)) = set (reportedEdges st)
      \<and> list_all distinct (cycles st))"

lemma reported_once_update [simp]:
  "reported_once P pp (st\<lparr>inStack := a\<rparr>) = reported_once P pp st"
  "reported_once P pp (st\<lparr>visited := b\<rparr>) = reported_once P pp st"
  by (simp_all add: reported_once_def)

lemma reported_once_push:
  assumes "reported_once P pp st" and "distinct cycle"
    and "edgeKey P pp cycle \<notin> set (reportedEdges st)"
  shows "reported_once P pp
     (st\<lparr>reportedEdges := set_add (reportedEdges st) (edgeKey P pp cycle),
          cycles := cycles st @ [cycle]\<rparr>)"
  using assms by (auto simp: reported_once_def)

lemma dfs_preserves:
  assumes "dfs fuel P pp adj node path st = Some st'"
    and "distinct path" and "set path = set (inStack st)" and "reported_once P pp st"
  shows "set (inStack st') = set (inStack st) \<and> reported_once P pp st'"
  using assms
proof (induction fuel arbitrary: node path st st')
  case 0
  then show ?case by simp
next
  case (Suc fuel)
  show ?case
  proof (cases "node \<in> set (inStack st)")
    case True
    show ?thesis
    proof (cases "indexOf path node")
      case None
      then show ?thesis using Suc.prems True by simp
    next
      case (Some cycleStart)
      have d: "distinct (drop cycleStart path)" using Suc.prems(2) by simp
      show ?thesis
      proof (cases "edgeKey P pp (drop cycleStart path) \<in> set (reportedEdges st)")
        case True
        then show ?thesis using Suc.prems \<open>node \<in> set (inStack st)\<close> Some by (simp add: Let_def)
      next
        case False
        have "st' = st\<lparr>reportedEdges := set_add (reportedEdges st) (edgeKey P pp (drop cycleStart path)),
            cycles := cycles st @ [drop cycleStart path]\<rparr>"
          using Suc.prems(1) \<open>node \<in> set (inStack st)\<close> Some False by (simp add: Let_def)
        then show ?thesis
          using reported_once_push [OF Suc.prems(4) d False] by simp
      qed
    qed
  next
    case notOnStack: False
    show ?thesis
    proof (cases "node \<in> set (visited st)")
      case True
      then show ?thesis using Suc.prems notOnStack by simp
    next
      case False
      let ?st1 = "st\<lparr>inStack := set_add (inStack st) node\<rparr>"
      let ?I = "\<lambda>t::DfsState. set (inStack t) = insert node (set (inStack st)) \<and> reported_once P pp t"
      from Suc.prems(1) notOnStack False obtain st2 where
        st2: "foldM (\<lambda>dep. dfs fuel P pp adj dep (path @ [node])) (lookup_set adj node) ?st1 = Some st2"
        and st': "st' = st2\<lparr>inStack := removeAll node (inStack st2),
            visited := set_add (visited st2) node\<rparr>"
        by (auto split: option.splits)
      have dp: "distinct (path @ [node])"
        using Suc.prems(2,3) notOnStack by simp
      have "?I st2"
      proof (rule foldM_invariant [OF st2, where I = ?I])
        show "?I ?st1" using Suc.prems(4) by simp
      next
        fix dep t t'
        assume t: "?I t" and run: "dfs fuel P pp adj dep (path @ [node]) t = Some t'"
        have sp: "set (path @ [node]) = set (inStack t)"
          using t Suc.prems(3) by auto
        from Suc.IH [OF run dp sp] t show "?I t'" by simp
      qed
      then show ?thesis using st' notOnStack by auto
    qed
  qed
qed

lemma dfs_total:
  assumes adj: "\<And>k. set (lookup_set adj k) \<subseteq> U" and fin: "finite U"
    and "node \<in> U" and "set (inStack st) \<subseteq> U" and "card (U - set (inStack st)) < fuel"
  shows "\<exists>st'. dfs fuel P pp adj node path st = Some st' \<and> set (inStack st') = set (inStack st)"
  using assms(3-)
proof (induction fuel arbitrary: node path st)
  case 0
  then show ?case by simp
next
  case (Suc fuel)
  show ?case
  proof (cases "node \<in> set (inStack st) \<or> node \<in> set (visited st)")
    case True
    then show ?thesis by (auto simp: Let_def split: option.splits)
  next
    case False
    let ?st1 = "st\<lparr>inStack := set_add (inStack st) node\<rparr>"
    let ?I = "\<lambda>t::DfsState. set (inStack t) = insert node (set (inStack st))"
    have less: "card (U - insert node (set (inStack st))) < fuel"
    proof -
      have "node \<in> U - set (inStack st)" using Suc.prems(1) False by simp
      then have "card (U - set (inStack st) - {node}) < card (U - set (inStack st))"
        using fin by (intro card_Diff1_less) auto
      moreover have "U - insert node (set (inStack st)) = U - set (inStack st) - {node}"
        by auto
      ultimately show ?thesis using Suc.prems(3) by simp
    qed
    have "\<exists>st2. foldM (\<lambda>dep. dfs fuel P pp adj dep (path @ [node])) (lookup_set adj node) ?st1
        = Some st2 \<and> ?I st2"
    proof (rule foldM_total [where I = ?I])
      show "?I ?st1" by simp
    next
      fix dep t
      assume dep: "dep \<in> set (lookup_set adj node)" and t: "?I t"
      have "dep \<in> U" using adj dep by blast
      moreover have "set (inStack t) \<subseteq> U" using t Suc.prems(1,2) by simp
      moreover have "card (U - set (inStack t)) < fuel" using t less by simp
      ultimately show "\<exists>t'. dfs fuel P pp adj dep (path @ [node]) t = Some t' \<and> ?I t'"
        using Suc.IH [of dep t "path @ [node]"] t by auto
    qed
    then obtain st2 where
      "foldM (\<lambda>dep. dfs fuel P pp adj dep (path @ [node])) (lookup_set adj node) ?st1 = Some st2"
      "?I st2" by blast
    then show ?thesis using False by auto
  qed
qed

lemma local_deps_subset:
  "set acc \<subseteq> set files \<Longrightarrow>
   set (fold (\<lambda>r deps. if sourceFile r \<in> set files then set_add deps (sourceFile r) else deps)
          rs acc) \<subseteq> set files"
  by (induction rs arbitrary: acc) auto

lemma lookup_set_update:
  "lookup_set (AList.update k v al) k' = (if k' = k then v else lookup_set al k')"
  by (simp add: lookup_set_def update_conv')

lemma adjacency_fold_subset:
  assumes "\<And>k. set (lookup_set acc k) \<subseteq> set files"
  shows "set (lookup_set (fold (\<lambda>(file, fileImports) adjacency.
        AList.update file
          (fold (\<lambda>r deps. if sourceFile r \<in> set files then set_add deps (sourceFile r) else deps)
             fileImports [])
          adjacency) entries acc) k) \<subseteq> set files"
  using assms
proof (induction entries arbitrary: acc)
  case Nil
  then show ?case by simp
next
  case (Cons e entries)
  obtain f fileImports where e: "e = (f, fileImports)" by (cases e)
  have "set (fold (\<lambda>r deps. if sourceFile r \<in> set files then set_add deps (sourceFile r) else deps)
      fileImports []) \<subseteq> set files"
    by (rule local_deps_subset) simp
  then have "\<And>k. set (lookup_set (AList.update f
      (fold (\<lambda>r deps. if sourceFile r \<in> set files then set_add deps (sourceFile r) else deps)
         fileImports []) acc) k) \<subseteq> set files"
    using Cons.prems by (simp add: lookup_set_update)
  then show ?case using Cons.IH e by simp
qed

lemma buildAdjacency_subset:
  "set (lookup_set (buildAdjacency graph files) k) \<subseteq> set files"
  unfolding buildAdjacency_def
  by (rule adjacency_fold_subset) (simp add: lookup_set_def)

lemma findCircularDependencies_run:
  "\<exists>st. foldM (\<lambda>file st. if file \<notin> set (visited st)
           then dfs (length files + 1) P projectPath (buildAdjacency graph files) file [] st
           else Some st)
        files \<lparr>cycles = [], visited = [], inStack = [], reportedEdges = []\<rparr> = Some st
      \<and> set (inStack st) = {} \<and> reported_once P projectPath st"
proof (rule foldM_total [where I = "\<lambda>st::DfsState. set (inStack st) = {} \<and> reported_once P projectPath st"])
  show "set (inStack \<lparr>cycles = [], visited = [], inStack = [], reportedEdges = []\<rparr>) = {}
      \<and> reported_once P projectPath \<lparr>cycles = [], visited = [], inStack = [], reportedEdges = []\<rparr>"
    by (simp add: reported_once_def)
next
  fix f and t :: DfsState
  assume f: "f \<in> set files"
    and t: "set (inStack t) = {} \<and> reported_once P projectPath t"
  show "\<exists>t'. (if f \<notin> set (visited t)
          then dfs (length files + 1) P projectPath (buildAdjacency graph files) f [] t
          else Some t) = Some t'
        \<and> set (inStack t') = {} \<and> reported_once P projectPath t'"
  proof (cases "f \<in> set (visited t)")
    case True
    then show ?thesis using t by simp
  next
    case False
    have "card (set files - set (inStack t)) < length files + 1"
      using t card_length [of files] by (simp add: less_Suc_eq_le)
    with dfs_total [of "buildAdjacency graph files" "set files" f t "length files + 1"
        P projectPath "[]"] buildAdjacency_subset f t
    obtain t' where run: "dfs (length files + 1) P projectPath (buildAdjacency graph files) f [] t
        = Some t'" and "set (inStack t') = set (inStack t)"
      by auto
    moreover have "reported_once P projectPath t'"
      using dfs_preserves [OF run] t by simp
    ultimately show ?thesis using False t by simp
  qed
qed

lemma edgeKey_same_members:
  assumes "distinct c1" "distinct c2" "set c1 = set c2"
  shows "edgeKey P projectPath c1 = edgeKey P projectPath c2"
proof -
  have "mset c1 = mset c2"
    using assms by (simp add: set_eq_iff_mset_eq_distinct)
  then have "mset (map (relative P projectPath) c1) = mset (map (relative P projectPath) c2)"
    by simp
  then have "sort (map (relative P projectPath) c1) = sort (map (relative P projectPath) c2)"
    by (metis properties_for_sort sorted_sort mset_sort)
  then show ?thesis by (simp add: edgeKey_def)
qed

lemma reported_once_members:
  assumes "reported_once P projectPath st"
  shows "distinct (map set (cycles st))"
proof -
  have k: "distinct (map (edgeKey P projectPath) (cycles st))"
    and d: "\<And>c. c \<in> set (cycles st) \<Longrightarrow> distinct c"
    using assms by (auto simp: reported_once_def list_all_iff)
  from k have dc: "distinct (cycles st)" and inj: "inj_on (edgeKey P projectPath) (set (cycles st))"
    by (simp_all add: distinct_map)
  have "inj_on set (set (cycles st))"
  proof (rule inj_onI)
    fix c1 c2
    assume c: "c1 \<in> set (cycles st)" "c2 \<in> set (cycles st)" and eq: "set c1 = set c2"
    have "edgeKey P projectPath c1 = edgeKey P projectPath c2"
      using edgeKey_same_members [OF d [OF c(1)] d [OF c(2)] eq] .
    then show "c1 = c2" using inj c by (simp add: inj_on_def)
  qed
  with dc show ?thesis by (simp add: distinct_map)
qed

text \<open>Two files that import each other: the search from the first finds the one cycle.\<close>

lemma mutual_pair_cycle:
  assumes "x \<noteq> y" "sourceFile rx = y" "sourceFile ry = x"
  shows "findCircularDependencies P \<lparr>exports = ex, imports = [(x, [rx]), (y, [ry])]\<rparr> [x, y] projectPath
     = Some [[x, y]]"
  using assms
  by (simp add: findCircularDependencies_def buildAdjacency_def set_add_def lookup_set_def
      Let_def numeral_3_eq_3)

text \<open>
  The cycle detector always returns, the canonical keys of the cycles it returns are
  pairwise different and so are their member sets; two files that import each other give
  the one cycle.
\<close>

lemma cycles_at_most_once:
  "(\<exists>found. findCircularDependencies P graph files projectPath = Some found
      \<and> distinct (map (edgeKey P projectPath) found)
      \<and> distinct (map set found))
   \<and> (x \<noteq> y \<and> sourceFile rx = y \<and> sourceFile ry = x \<longrightarrow>
        findCircularDependencies P \<lparr>exports = ex, imports = [(x, [rx]), (y, [ry])]\<rparr> [x, y] projectPath
          = Some [[x, y]])"
proof -
  obtain st where st: "foldM (\<lambda>file st. if file \<notin> set (visited st)
           then dfs (length files + 1) P projectPath (buildAdjacency graph files) file [] st
           else Some st)
        files \<lparr>cycles = [], visited = [], inStack = [], reportedEdges = []\<rparr> = Some st"
    and once: "reported_once P projectPath st"
    using findCircularDependencies_run by blast
  have "findCircularDependencies P graph files projectPath = Some (cycles st)"
    using st by (simp add: findCircularDependencies_def)
  moreover have "distinct (map (edgeKey P projectPath) (cycles st))"
    using once by (simp add: reported_once_def)
  moreover have "distinct (map set (cycles st))"
    using once by (rule reported_once_members)
  ultimately show ?thesis using mutual_pair_cycle [of x y rx ry P ex projectPath] by blast
qed

section \<open>Claims about the cycle detector\<close>

text \<open>
  Four files in two pairs that import each other: \<^verbatim>\<open>a.ts\<close> with \<^verbatim>\<open>b.ts|c.ts\<close>, and
  \<^verbatim>\<open>a.ts|b.ts\<close> with \<^verbatim>\<open>c.ts\<close>. A vertical bar is an ordinary character of a file name.
\<close>


definition collision_disk :: fs where
  "collision_disk = disk
     [(''/p/a.ts'', ''import { x } from '' @ [SQ] @ ''./b.ts|c.ts'' @ [SQ]),
      (''/p/b.ts|c.ts'', ''import { x } from '' @ [SQ] @ ''./a.ts'' @ [SQ]),
      (''/p/a.ts|b.ts'', ''import { x } from '' @ [SQ] @ ''./c.ts'' @ [SQ]),
      (''/p/c.ts'', ''import { x } from '' @ [SQ] @ ''./a.ts|b.ts'' @ [SQ])]
     [''/p'']"

text \<open>
  C3: the claim is that a cycle the search meets gets exactly one finding for its member
  set. The canonical key joins the sorted relative paths with a vertical bar, so the two
  pairs, which share no file, have the same key. Analysed alone, the second pair is
  reported. Analysed after the first pair, it is met, its key is found among the
  reported ones, and it gets no finding: one finding for two cycles.
\<close>

theorem edgeKey_collision:
  "edgeKey posix ''/p'' [''/p/a.ts'', ''/p/b.ts|c.ts''] = ''a.ts|b.ts|c.ts''
   \<and> edgeKey posix ''/p'' [''/p/a.ts|b.ts'', ''/p/c.ts''] = ''a.ts|b.ts|c.ts''
   \<and> findCircularDependencies posix
        (buildExportGraph no_parse posix collision_disk [''/p/a.ts|b.ts'', ''/p/c.ts''])
        [''/p/a.ts|b.ts'', ''/p/c.ts''] ''/p''
      = Some [[''/p/a.ts|b.ts'', ''/p/c.ts'']]
   \<and> findCircularDependencies posix
        (buildExportGraph no_parse posix collision_disk
           [''/p/a.ts'', ''/p/b.ts|c.ts'', ''/p/a.ts|b.ts'', ''/p/c.ts''])
        [''/p/a.ts'', ''/p/b.ts|c.ts'', ''/p/a.ts|b.ts'', ''/p/c.ts''] ''/p''
      = Some [[''/p/a.ts'', ''/p/b.ts|c.ts'']]"
  by code_simp

section \<open>Properties of the unused-export detector\<close>

text \<open>
  An export is used, in the words of the specification: some import record that resolves
  to the file consumes that exact name, or consumes the namespace name \<^verbatim>\<open>*\<close>, or the
  export is \<^verbatim>\<open>default\<close> and the record is a default import.
\<close>

definition export_used :: "ExportGraph \<Rightarrow> string \<Rightarrow> string \<Rightarrow> bool" where
  "export_used graph target name =
     (\<exists>(importer, records) \<in> set (imports graph). \<exists>r \<in> set records.
        sourceFile r = target
        \<and> (importedName r = name \<or> importedName r = ''*''
             \<or> (name = ''default'' \<and> importedName r = ''default'')))"

lemma findCircularDependencies_total:
  "\<exists>found. findCircularDependencies P graph files projectPath = Some found"
  using findCircularDependencies_run [of files P projectPath graph]
  by (auto simp: findCircularDependencies_def)

lemma recordImport_names:
  "set (lookup_set (recordImport r allImports) k)
   = set (lookup_set allImports k) \<union> (if k = sourceFile r then {importedName r} else {})"
  by (auto simp: recordImport_def Let_def lookup_set_update lookup_set_def update_conv'
      split: option.splits)

lemma fold_recordImport_names:
  "set (lookup_set (fold recordImport records allImports) k)
   = set (lookup_set allImports k) \<union> {importedName r |r. r \<in> set records \<and> sourceFile r = k}"
proof (induction records arbitrary: allImports)
  case Nil
  show ?case by simp
next
  case (Cons r records)
  have "set (lookup_set (fold recordImport (r # records) allImports) k)
      = set (lookup_set (recordImport r allImports) k)
        \<union> {importedName r' |r'. r' \<in> set records \<and> sourceFile r' = k}"
    using Cons.IH [of "recordImport r allImports"] by simp
  also have "\<dots> = set (lookup_set allImports k)
        \<union> {importedName r' |r'. r' \<in> set (r # records) \<and> sourceFile r' = k}"
    unfolding recordImport_names by auto
  finally show ?case .
qed

lemma collect_entries_names:
  "set (lookup_set
      (fold (\<lambda>(importingFile, fileImports) allImports. fold recordImport fileImports allImports)
         entries allImports) k)
   = set (lookup_set allImports k)
     \<union> {importedName r |r importer records.
          (importer, records) \<in> set entries \<and> r \<in> set records \<and> sourceFile r = k}"
proof (induction entries arbitrary: allImports)
  case Nil
  show ?case by simp
next
  case (Cons e entries)
  obtain importer records where e: "e = (importer, records)" by (cases e)
  let ?step = "\<lambda>(importingFile, fileImports) allImports. fold recordImport fileImports allImports"
  have "set (lookup_set (fold ?step (e # entries) allImports) k)
      = set (lookup_set (fold recordImport records allImports) k)
        \<union> {importedName r |r importer' records'.
          (importer', records') \<in> set entries \<and> r \<in> set records' \<and> sourceFile r = k}"
    using Cons.IH [of "fold recordImport records allImports"] e by simp
  also have "\<dots> = set (lookup_set allImports k)
        \<union> ({importedName r |r. r \<in> set records \<and> sourceFile r = k}
        \<union> {importedName r |r importer' records'.
          (importer', records') \<in> set entries \<and> r \<in> set records' \<and> sourceFile r = k})"
    unfolding fold_recordImport_names by (simp add: Un_assoc)
  also have "{importedName r |r. r \<in> set records \<and> sourceFile r = k}
        \<union> {importedName r |r importer' records'.
          (importer', records') \<in> set entries \<and> r \<in> set records' \<and> sourceFile r = k}
      = {importedName r |r importer' records'.
          (importer', records') \<in> set (e # entries) \<and> r \<in> set records' \<and> sourceFile r = k}"
    unfolding e by (rule set_eqI) (simp, blast)
  finally show ?case .
qed

lemma collectImports_names:
  "set (lookup_set (collectImports graph) k)
   = {importedName r |r importer records.
        (importer, records) \<in> set (imports graph) \<and> r \<in> set records \<and> sourceFile r = k}"
  unfolding collectImports_def collect_entries_names by (simp add: lookup_set_def)

lemma export_used_collect:
  "export_used graph target name \<longleftrightarrow>
     (name \<in> set (lookup_set (collectImports graph) target)
      \<or> ''*'' \<in> set (lookup_set (collectImports graph) target)
      \<or> (name = ''default'' \<and> ''default'' \<in> set (lookup_set (collectImports graph) target)))"
proof -
  have "name \<in> set (lookup_set (collectImports graph) target) \<longleftrightarrow>
      (\<exists>(importer, records) \<in> set (imports graph). \<exists>r \<in> set records.
         sourceFile r = target \<and> importedName r = name)" for name
    unfolding collectImports_names by blast
  then show ?thesis unfolding export_used_def by blast
qed

lemma findUnusedExports_iff:
  "u \<in> set (findUnusedExports F graph) \<longleftrightarrow>
     (\<exists>(f, fileExports) \<in> set (exports graph). \<exists>name \<in> set fileExports.
        \<not> startsWith name ''*'' \<and> \<not> export_used graph f name
        \<and> u = \<lparr>ue_file = f, ue_exportName = name, ue_line = getExportLine F f name\<rparr>)"
proof -
  have inner: "u \<in> set (concat (map (\<lambda>exportName.
                 if startsWith exportName ''*'' then []
                 else if \<not> (exportName \<in> set (lookup_set (collectImports graph) f)
                            \<or> ''*'' \<in> set (lookup_set (collectImports graph) f)
                            \<or> (exportName = ''default''
                                \<and> ''default'' \<in> set (lookup_set (collectImports graph) f)))
                 then [\<lparr>ue_file = f, ue_exportName = exportName,
                        ue_line = getExportLine F f exportName\<rparr>]
                 else [])
               fileExports))
      \<longleftrightarrow> (\<exists>name \<in> set fileExports.
        \<not> startsWith name ''*'' \<and> \<not> export_used graph f name
        \<and> u = \<lparr>ue_file = f, ue_exportName = name, ue_line = getExportLine F f name\<rparr>)"
    for f fileExports
    unfolding export_used_collect by (induction fileExports) auto
  show ?thesis
    unfolding findUnusedExports_def Let_def set_concat set_map
    using inner by (simp add: case_prod_unfold Bex_def) 
qed


text \<open>The issue that \<open>analyzeUnusedExports\<close> pushes for an unused export.\<close>

definition unused_issue :: "pathlib \<Rightarrow> string \<Rightarrow> UnusedExport \<Rightarrow> TreeShakingIssue" where
  "unused_issue P projectPath u =
     \<lparr>issue_type = unused_export, severity = low,
      issue_file = relative P projectPath (ue_file u), issue_line = Some (ue_line u),
      pattern = ''export '' @ ue_exportName u, estimatedImpact = 500\<rparr>"

lemma concat_unless:
  "i \<in> set (concat (map (\<lambda>u. if Q u then [] else [g u]) xs)) \<longleftrightarrow> (\<exists>u \<in> set xs. \<not> Q u \<and> i = g u)"
  by (induction xs) auto

lemma analyzeUnusedExports_unused:
  "\<exists>issues. analyzeUnusedExports parse P F files projectPath = Some issues
     \<and> (\<forall>i. i \<in> set issues \<and> issue_type i = unused_export \<longleftrightarrow>
          (\<exists>u \<in> set (findUnusedExports F (buildExportGraph parse P F files)).
             \<not> isEntryPoint P (ue_file u) projectPath \<and> i = unused_issue P projectPath u))"
proof -
  let ?graph = "buildExportGraph parse P F files"
  obtain found where found:
    "findCircularDependencies P ?graph files projectPath = Some found"
    using findCircularDependencies_total by blast
  define unusedIssues where "unusedIssues = concat (map (\<lambda>u.
             if isEntryPoint P (ue_file u) projectPath then []
             else [unused_issue P projectPath u]) (findUnusedExports F ?graph))"
  define cycleIssues where "cycleIssues = map (\<lambda>cycle.
                 (let relFiles = map (relative P projectPath) cycle
                  in \<lparr>issue_type = circular_dependency,
                      severity = (if length cycle \<le> 2 then high else critical),
                      issue_file = (case relFiles of [] \<Rightarrow> [] | f # _ \<Rightarrow> f),
                      issue_line = None,
                      pattern = ''circular: '' @ show_nat (length relFiles) @ '' files'',
                      estimatedImpact = length cycle * 2000\<rparr>))
                found"
  have run: "analyzeUnusedExports parse P F files projectPath = Some (unusedIssues @ cycleIssues)"
    unfolding analyzeUnusedExports_def Let_def found option.case unusedIssues_def cycleIssues_def
      unused_issue_def ..
  have cyc: "issue_type i \<noteq> unused_export" if "i \<in> set cycleIssues" for i
    using that unfolding cycleIssues_def Let_def by (induction found) auto
  have un: "i \<in> set unusedIssues \<longleftrightarrow>
      (\<exists>u \<in> set (findUnusedExports F ?graph).
             \<not> isEntryPoint P (ue_file u) projectPath \<and> i = unused_issue P projectPath u)" for i
    unfolding unusedIssues_def by (rule concat_unless)
  have ty: "issue_type (unused_issue P projectPath u) = unused_export" for u
    by (simp add: unused_issue_def)
  have "i \<in> set (unusedIssues @ cycleIssues) \<and> issue_type i = unused_export \<longleftrightarrow>
          (\<exists>u \<in> set (findUnusedExports F ?graph).
             \<not> isEntryPoint P (ue_file u) projectPath \<and> i = unused_issue P projectPath u)" for i
    using cyc [of i] un [of i] ty by auto
  then show ?thesis using run by blast
qed

lemma isEntryPoint_relative:
  "relative P projectPath f = relative P projectPath g
    \<Longrightarrow> isEntryPoint P f projectPath = isEntryPoint P g projectPath"
  by (simp add: isEntryPoint_def)

text \<open>
  C1. The analysis returns. A file that matches the entry-point predicate has no
  unused-export finding at all. For a file \<open>f\<close> of the graph that does not match it and a
  non-wildcard export name recorded for \<open>f\<close>, there is an unused-export finding for the
  file and the name if and only if the name is not used. A finding names its file by the
  path relative to the project root, so the paths of the analysed files are taken to
  have different relative paths.
\<close>

theorem unused_export_findings:
  assumes entry: "(f, fileExports) \<in> set (exports (buildExportGraph parse P F files))"
    and name: "name \<in> set fileExports" and named: "\<not> startsWith name ''*''"
    and inj: "inj_on (relative P projectPath) (fst ` set (exports (buildExportGraph parse P F files)))"
  shows "\<exists>issues. analyzeUnusedExports parse P F files projectPath = Some issues
     \<and> (\<forall>g. isEntryPoint P g projectPath \<longrightarrow>
           \<not> (\<exists>i \<in> set issues. issue_type i = unused_export
                 \<and> issue_file i = relative P projectPath g))
     \<and> (\<not> isEntryPoint P f projectPath \<longrightarrow>
           ((\<exists>i \<in> set issues. issue_type i = unused_export
                 \<and> issue_file i = relative P projectPath f \<and> pattern i = ''export '' @ name)
            \<longleftrightarrow> \<not> export_used (buildExportGraph parse P F files) f name))"
proof -
  let ?graph = "buildExportGraph parse P F files"
  obtain issues where run: "analyzeUnusedExports parse P F files projectPath = Some issues"
    and unused: "\<And>i. i \<in> set issues \<and> issue_type i = unused_export \<longleftrightarrow>
          (\<exists>u \<in> set (findUnusedExports F ?graph).
             \<not> isEntryPoint P (ue_file u) projectPath \<and> i = unused_issue P projectPath u)"
    using analyzeUnusedExports_unused [of parse P F files projectPath] by blast
  have exempt: "\<not> (\<exists>i \<in> set issues. issue_type i = unused_export
      \<and> issue_file i = relative P projectPath g)" if g: "isEntryPoint P g projectPath" for g
  proof
    assume "\<exists>i \<in> set issues. issue_type i = unused_export \<and> issue_file i = relative P projectPath g"
    then obtain i where i: "i \<in> set issues" "issue_type i = unused_export"
      "issue_file i = relative P projectPath g" by blast
    then obtain u where u: "\<not> isEntryPoint P (ue_file u) projectPath" "i = unused_issue P projectPath u"
      using unused [of i] by blast
    have "relative P projectPath (ue_file u) = relative P projectPath g"
      using i(3) u(2) by (simp add: unused_issue_def)
    then show False using isEntryPoint_relative u(1) g by blast
  qed
  have reported: "(\<exists>i \<in> set issues. issue_type i = unused_export
        \<and> issue_file i = relative P projectPath f \<and> pattern i = ''export '' @ name)
      \<longleftrightarrow> \<not> export_used ?graph f name" if nonentry: "\<not> isEntryPoint P f projectPath"
  proof
    assume "\<exists>i \<in> set issues. issue_type i = unused_export
        \<and> issue_file i = relative P projectPath f \<and> pattern i = ''export '' @ name"
    then obtain i where i: "i \<in> set issues" "issue_type i = unused_export"
      "issue_file i = relative P projectPath f" "pattern i = ''export '' @ name" by blast
    then obtain u where u: "u \<in> set (findUnusedExports F ?graph)" "i = unused_issue P projectPath u"
      using unused [of i] by blast
    from u(1) obtain g gExports n where g: "(g, gExports) \<in> set (exports ?graph)"
      "\<not> export_used ?graph g n"
      "u = \<lparr>ue_file = g, ue_exportName = n, ue_line = getExportLine F g n\<rparr>"
      unfolding findUnusedExports_iff by blast
    have "relative P projectPath g = relative P projectPath f" and "n = name"
      using i(3,4) u(2) g(3) by (simp_all add: unused_issue_def)
    moreover have "g \<in> fst ` set (exports ?graph)" "f \<in> fst ` set (exports ?graph)"
      using g(1) entry by force+
    ultimately have "g = f" using inj_onD [OF inj] by blast
    then show "\<not> export_used ?graph f name" using g(2) \<open>n = name\<close> by simp
  next
    assume "\<not> export_used ?graph f name"
    then have "\<lparr>ue_file = f, ue_exportName = name, ue_line = getExportLine F f name\<rparr>
        \<in> set (findUnusedExports F ?graph)"
      unfolding findUnusedExports_iff using entry name named by blast
    then have "unused_issue P projectPath
        \<lparr>ue_file = f, ue_exportName = name, ue_line = getExportLine F f name\<rparr> \<in> set issues"
      using unused nonentry by fastforce
    then show "\<exists>i \<in> set issues. issue_type i = unused_export
        \<and> issue_file i = relative P projectPath f \<and> pattern i = ''export '' @ name"
      by (rule bexI [rotated]) (simp add: unused_issue_def)
  qed
  show ?thesis using run exempt reported by blast
qed


text \<open>
  A project for the examples. \<^verbatim>\<open>b.ts\<close> re-exports \<open>foo\<close> from \<^verbatim>\<open>a.ts\<close>, nothing
  imports \<open>bar\<close> of \<^verbatim>\<open>c.ts\<close>, and \<^verbatim>\<open>d.ts\<close> is a directory, so that reading it
  throws. \<open>demo_graph\<close> is the graph the builder makes of it.
\<close>

definition demo_disk :: fs where
  "demo_disk = disk
     [(''/p/src/a.ts'', ''export const foo = 1;''),
      (''/p/src/b.ts'', ''export { foo } from '' @ [SQ] @ ''./a'' @ [SQ] @ '';''),
      (''/p/src/c.ts'', ''export const bar = 2;'')]
     [''/p'', ''/p/src'', ''/p/src/d.ts'']"

definition demo_files :: "string list" where
  "demo_files = [''/p/src/a.ts'', ''/p/src/b.ts'', ''/p/src/d.ts'', ''/p/src/c.ts'']"

definition demo_graph :: ExportGraph where
  "demo_graph = \<lparr>exports = [(''/p/src/a.ts'', [''foo'']), (''/p/src/b.ts'', [''foo'']),
                             (''/p/src/c.ts'', [''bar''])],
                  imports = [(''/p/src/a.ts'', []),
                             (''/p/src/b.ts'', [\<lparr>importedName = ''foo'', sourceFile = ''/p/src/a.ts''\<rparr>]),
                             (''/p/src/c.ts'', [])]\<rparr>"

lemma demo_buildExportGraph:
  "buildExportGraph no_parse posix demo_disk demo_files = demo_graph"
  by code_simp

theorem unused_export_findings_witness:
  "\<not> export_used (buildExportGraph no_parse posix demo_disk demo_files) ''/p/src/c.ts'' ''bar''
   \<and> (\<exists>issues. analyzeUnusedExports no_parse posix demo_disk demo_files ''/p'' = Some issues
        \<and> (\<exists>i \<in> set issues. issue_type i = unused_export
              \<and> issue_file i = ''src/c.ts'' \<and> pattern i = ''export bar''))"
proof -
  have entry: "(''/p/src/c.ts'', [''bar'']) \<in> set (exports (buildExportGraph no_parse posix demo_disk demo_files))"
    unfolding demo_buildExportGraph by (simp add: demo_graph_def)
  have name: "''bar'' \<in> set [''bar'']" by simp
  have named: "\<not> startsWith ''bar'' ''*''" by (simp add: startsWith_def)
  have inj: "inj_on (relative posix ''/p'')
      (fst ` set (exports (buildExportGraph no_parse posix demo_disk demo_files)))"
    unfolding demo_buildExportGraph by (simp add: demo_graph_def posix_def startsWith_def)
  have nonentry: "\<not> isEntryPoint posix ''/p/src/c.ts'' ''/p''"
    by code_simp
  have unused: "\<not> export_used (buildExportGraph no_parse posix demo_disk demo_files) ''/p/src/c.ts'' ''bar''"
    unfolding demo_buildExportGraph by (simp add: demo_graph_def export_used_def)
  have rel: "relative posix ''/p'' ''/p/src/c.ts'' = ''src/c.ts''"
    by (simp add: posix_def startsWith_def)
  from unused_export_findings [OF entry name named inj]
  obtain issues where "analyzeUnusedExports no_parse posix demo_disk demo_files ''/p'' = Some issues"
    and "\<not> isEntryPoint posix ''/p/src/c.ts'' ''/p'' \<longrightarrow>
      ((\<exists>i \<in> set issues. issue_type i = unused_export
            \<and> issue_file i = relative posix ''/p'' ''/p/src/c.ts'' \<and> pattern i = ''export '' @ ''bar'')
       \<longleftrightarrow> \<not> export_used (buildExportGraph no_parse posix demo_disk demo_files) ''/p/src/c.ts'' ''bar'')"
    by blast
  then show ?thesis using nonentry unused rel by auto
qed


section \<open>Properties of the graph builder\<close>

lemma addFile_unreadable: "readFileSync F f = None \<Longrightarrow> addFile parse P F f graph = graph"
  by (simp add: addFile_def)

lemma update_keys_set: "fst ` set (AList.update k v al) = insert k (fst ` set al)"
proof -
  have "set (map fst (AList.update k v al)) = insert k (set (map fst al))"
    by (auto simp: update_keys)
  then show ?thesis by simp
qed

lemma addFile_keys:
  "fst ` set (exports (addFile parse P F f graph))
     = fst ` set (exports graph) \<union> (if readFileSync F f = None then {} else {f})"
  "fst ` set (imports (addFile parse P F f graph))
     = fst ` set (imports graph) \<union> (if readFileSync F f = None then {} else {f})"
  by (simp_all add: addFile_def Let_def split_def update_keys_set split: option.splits)

lemma fold_addFile_keys:
  "fst ` set (exports (fold (addFile parse P F) files graph))
     = fst ` set (exports graph) \<union> {f \<in> set files. readFileSync F f \<noteq> None}"
  "fst ` set (imports (fold (addFile parse P F) files graph))
     = fst ` set (imports graph) \<union> {f \<in> set files. readFileSync F f \<noteq> None}"
  by (induction files arbitrary: graph) (auto simp: addFile_keys)

lemma fold_addFile_skip:
  "readFileSync F f = None \<Longrightarrow>
   fold (addFile parse P F) files graph = fold (addFile parse P F) (removeAll f files) graph"
  by (induction files arbitrary: graph) (auto simp: addFile_unreadable)

text \<open>
  C9. A file whose read throws is skipped. The round of the loop for it leaves the two
  maps as they are, and the graph is the graph of the other files, built as if the file
  had not been listed: the run goes on and what the other files contribute is unchanged.
  The file is a key of neither map, no unused export found names it, and the analysis
  returns.
\<close>

theorem unreadable_file_skipped:
  assumes "readFileSync F f = None"
  shows "addFile parse P F f graph = graph
    \<and> buildExportGraph parse P F files = buildExportGraph parse P F (removeAll f files)
    \<and> f \<notin> fst ` set (exports (buildExportGraph parse P F files))
    \<and> f \<notin> fst ` set (imports (buildExportGraph parse P F files))
    \<and> (\<forall>u \<in> set (findUnusedExports F (buildExportGraph parse P F files)). ue_file u \<noteq> f)
    \<and> (\<exists>issues. analyzeUnusedExports parse P F files projectPath = Some issues)"
proof -
  have keys: "f \<notin> fst ` set (exports (buildExportGraph parse P F files))"
    "f \<notin> fst ` set (imports (buildExportGraph parse P F files))"
    using assms by (simp_all add: buildExportGraph_def fold_addFile_keys)
  have "ue_file u \<noteq> f" if "u \<in> set (findUnusedExports F (buildExportGraph parse P F files))" for u
  proof -
    from that obtain g gExports n where "(g, gExports) \<in> set (exports (buildExportGraph parse P F files))"
      "u = \<lparr>ue_file = g, ue_exportName = n, ue_line = getExportLine F g n\<rparr>"
      unfolding findUnusedExports_iff by blast
    then show ?thesis using keys(1) by force
  qed
  moreover have "\<exists>issues. analyzeUnusedExports parse P F files projectPath = Some issues"
    using analyzeUnusedExports_unused by blast
  ultimately show ?thesis
    using keys addFile_unreadable [OF assms] fold_addFile_skip [OF assms]
    by (simp add: buildExportGraph_def)
qed

theorem unreadable_file_skipped_witness:
  "readFileSync demo_disk ''/p/src/d.ts'' = None \<and> ''/p/src/d.ts'' \<in> set demo_files
   \<and> buildExportGraph no_parse posix demo_disk demo_files
      = buildExportGraph no_parse posix demo_disk [''/p/src/a.ts'', ''/p/src/b.ts'', ''/p/src/c.ts'']
   \<and> ''/p/src/d.ts'' \<notin> fst ` set (exports (buildExportGraph no_parse posix demo_disk demo_files))"
proof -
  have unreadable: "readFileSync demo_disk ''/p/src/d.ts'' = None"
    by (simp add: demo_disk_def disk_def)
  have rest: "removeAll ''/p/src/d.ts'' demo_files = [''/p/src/a.ts'', ''/p/src/b.ts'', ''/p/src/c.ts'']"
    by (simp add: demo_files_def)
  note skipped = unreadable_file_skipped [OF unreadable, of no_parse posix "\<lparr>exports = [], imports = []\<rparr>"
      demo_files "''/p''"]
  have same: "buildExportGraph no_parse posix demo_disk demo_files
      = buildExportGraph no_parse posix demo_disk (removeAll ''/p/src/d.ts'' demo_files)"
    using skipped by blast
  have absent: "''/p/src/d.ts'' \<notin> fst ` set (exports (buildExportGraph no_parse posix demo_disk demo_files))"
    using skipped by blast
  have listed: "''/p/src/d.ts'' \<in> set demo_files"
    by (simp add: demo_files_def)
  show ?thesis
    using unreadable listed same [unfolded rest] absent by blast
qed

end
